theory Spec2Isabelle
  imports Main "HOL-Library.Word"
begin

section \<open>The two-tier data buffer: data model\<close>

text \<open>
  The development embeds \<^verbatim>\<open>include/maidsafe/data_store/data_buffer.h\<close>
  (class template \<^verbatim>\<open>DataBuffer<Key>\<close>).  Keys and values are byte strings
  (\<^typ>\<open>string\<close> is a list of 8-bit characters); a value stands for an initialised
  \<^verbatim>\<open>NonEmptyString\<close>.  \<^verbatim>\<open>MemoryUsage\<close> and \<^verbatim>\<open>DiskUsage\<close> are tagged
  \<^verbatim>\<open>uint64_t\<close> values, modelled as 64-bit words, so that \<^verbatim>\<open>max - required_space\<close>
  wraps as it does in the source.  Assertions are compiled out (release build).
\<close>

type_synonym u64 = "64 word"

datatype error =
  invalid_parameter | uninitialised | cannot_exceed_limit | filesystem_io_error | no_such_element

datatype StoringState = kNotStarted | kStarted | kCancelled | kCompleted

record MemoryElement =
  m_key :: string
  m_value :: string
  also_on_disk :: StoringState

record DiskElement =
  d_key :: string
  d_state :: StoringState

text \<open>\<^verbatim>\<open>struct Storage\<close>: the mutex and the condition variable are represented by the
  step structure of the model (a step runs with the locks it needs, a wait ends a step).\<close>

record 'i Storage =
  max_usage :: u64
  current :: u64
  index :: 'i

subsection \<open>The spill directory\<close>

text \<open>The part of the file system the buffer touches: whether the directory \<^verbatim>\<open>kDiskBuffer_\<close>
  exists, whether it could be created, whether files can be written in it, and the files in it
  by path.\<close>

record filesystem =
  root_exists :: bool
  root_creatable :: bool
  root_writable :: bool
  files :: "string \<rightharpoonup> string"

definition WriteFile :: "string \<Rightarrow> string \<Rightarrow> filesystem \<Rightarrow> filesystem option" where
  "WriteFile path content fsys =
     (if root_exists fsys \<and> root_writable fsys
      then Some (fsys\<lparr>files := (files fsys)(path \<mapsto> content)\<rparr>) else None)"

definition ReadFile :: "string \<Rightarrow> filesystem \<Rightarrow> string option" where
  "ReadFile path fsys = files fsys path"

definition file_size :: "string \<Rightarrow> filesystem \<Rightarrow> u64 option" where
  "file_size path fsys = map_option (\<lambda>content. of_nat (length content)) (files fsys path)"

definition remove_path :: "string \<Rightarrow> filesystem \<Rightarrow> filesystem option" where
  "remove_path path fsys =
     (case files fsys path of None \<Rightarrow> None
      | Some _ \<Rightarrow> Some (fsys\<lparr>files := (files fsys)(path := None)\<rparr>))"

text \<open>The directory is removed from outside (test \<^verbatim>\<open>DataBufferRemoveDiskBuffer\<close>).\<close>

definition remove_all_root :: "filesystem \<Rightarrow> filesystem" where
  "remove_all_root fsys = fsys\<lparr>root_exists := False, files := Map.empty\<rparr>"

subsection \<open>Spill-file names\<close>

text \<open>Modelled from the spec: \<^verbatim>\<open>HexEncode\<close> (declared in \<^verbatim>\<open>maidsafe/common/utils.h\<close>, not
  part of the sources at hand) is "a hex representation of the key's canonical byte form":
  two lower-case hexadecimal digits per byte, high nibble first.\<close>

definition kHexAlphabet :: string where
  "kHexAlphabet = ''0123456789abcdef''"

definition HexEncode :: "string \<Rightarrow> string" where
  "HexEncode non_hex_input =
     concat (map (\<lambda>c. [kHexAlphabet ! ((of_char c :: nat) div 16),
                        kHexAlphabet ! ((of_char c :: nat) mod 16)]) non_hex_input)"

text \<open>\<^verbatim>\<open>GetFilename\<close>: \<^verbatim>\<open>kDiskBuffer_ / HexEncode(key)\<close>; the path is the directory, a
  separator and the file name.\<close>

definition GetFilename :: "string \<Rightarrow> string \<Rightarrow> string" where
  "GetFilename kDiskBuffer key = kDiskBuffer @ ''/'' @ HexEncode key"

subsection \<open>The buffer\<close>

text \<open>\<^verbatim>\<open>std::future<void> worker_\<close>: not yet ready while the worker runs, ready with or
  without a stored exception once it has left \<^verbatim>\<open>CopyQueueToDisk\<close>, invalid after
  \<^verbatim>\<open>get()\<close>.\<close>

datatype worker_future = NotReady | ReadyOk | ReadyError error | Invalid

text \<open>Where the worker thread stands between two of its steps: suspended at the top of its
  loop, suspended in \<^verbatim>\<open>WaitForSpaceOnDisk\<close> with the key and value it is spilling, between
  \<^verbatim>\<open>StoreOnDisk\<close> and the marking of the memory element, out of \<^verbatim>\<open>CopyQueueToDisk\<close>,
  or iterating for ever in \<^verbatim>\<open>WaitForSpaceOnDisk\<close>.\<close>

datatype worker_pc =
    WaitingForWork
  | WaitingForDiskSpace string string
  | AboutToMark string
  | Finished
  | Spinning

text \<open>The members of \<^verbatim>\<open>DataBuffer\<close> (without the trailing underscore of the source).
  \<open>kPopFunctor\<close> says whether a pop functor was given; its calls are logged in \<open>popped\<close>.
  \<open>worker_at\<close> and \<open>fs\<close> are the state of the worker thread and of the spill directory.\<close>

record DataBuffer =
  memory_store :: "MemoryElement list Storage"
  disk_store :: "DiskElement list Storage"
  kPopFunctor :: bool
  popped :: "(string \<times> string) list"
  kDiskBuffer :: string
  kShouldRemoveRoot :: bool
  running :: bool
  worker :: worker_future
  worker_at :: worker_pc
  fs :: filesystem

text \<open>Where a caller's thread is suspended on a condition variable.\<close>

datatype caller_pc =
    InWaitForSpaceInMemory string string
  | InWaitForSpaceOnDisk string string
  | InGetWait string

text \<open>What a call does in one step: it returns, throws, suspends on a condition variable, or
  never returns while holding a mutex (\<open>Hung\<close>).\<close>

datatype outcome =
    Returned "string option" DataBuffer
  | Threw error DataBuffer
  | Blocked caller_pc DataBuffer
  | Hung DataBuffer

fun state_of :: "outcome \<Rightarrow> DataBuffer" where
  "state_of (Returned _ s) = s"
| "state_of (Threw _ s) = s"
| "state_of (Blocked _ s) = s"
| "state_of (Hung s) = s"

subsection \<open>Iterators\<close>

text \<open>\<^verbatim>\<open>std::find_if\<close> over a deque: the position of the first element satisfying the
  predicate, or the length of the sequence for \<^verbatim>\<open>end()\<close>.\<close>

primrec find_if :: "('a \<Rightarrow> bool) \<Rightarrow> 'a list \<Rightarrow> nat" where
  "find_if P [] = 0"
| "find_if P (x # xs) = (if P x then 0 else Suc (find_if P xs))"

definition erase :: "'a list \<Rightarrow> nat \<Rightarrow> 'a list" where
  "erase xs itr = take itr xs @ drop (Suc itr) xs"

definition HasSpace :: "'i Storage \<Rightarrow> u64 \<Rightarrow> bool" where
  "HasSpace store required_space = (current store \<le> max_usage store - required_space)"

definition FindMemory :: "DataBuffer \<Rightarrow> string \<Rightarrow> nat" where
  "FindMemory s key = find_if (\<lambda>key_value. m_key key_value = key) (index (memory_store s))"

definition FindDisk :: "DataBuffer \<Rightarrow> string \<Rightarrow> nat" where
  "FindDisk s key = find_if (\<lambda>key_value. d_key key_value = key) (index (disk_store s))"

definition FindOldestInMemoryOnly :: "DataBuffer \<Rightarrow> nat" where
  "FindOldestInMemoryOnly s =
     find_if (\<lambda>key_value. also_on_disk key_value = kNotStarted) (index (memory_store s))"

definition FindStartedToStoreOnDisk :: "DataBuffer \<Rightarrow> string \<Rightarrow> nat" where
  "FindStartedToStoreOnDisk s key =
     find_if (\<lambda>entry. d_state entry = kStarted \<and> d_key entry = key) (index (disk_store s))"

definition FindOldestOnDisk :: "DataBuffer \<Rightarrow> nat" where
  "FindOldestOnDisk s = 0"

definition memory_end :: "DataBuffer \<Rightarrow> nat" where
  "memory_end s = length (index (memory_store s))"

definition disk_end :: "DataBuffer \<Rightarrow> nat" where
  "disk_end s = length (index (disk_store s))"

definition size_of :: "string \<Rightarrow> u64" where
  "size_of v = of_nat (length v)"

section \<open>Operations\<close>

type_synonym 'a result = "(error + 'a) \<times> DataBuffer"

subsection \<open>Construction\<close>

text \<open>\<^verbatim>\<open>Init\<close>, with the members the two constructors initialise as arguments.  The worker is
  launched last: its future is valid and not ready, and it stands at the top of its loop.\<close>

definition Init ::
  "u64 \<Rightarrow> u64 \<Rightarrow> bool \<Rightarrow> string \<Rightarrow> bool \<Rightarrow> filesystem \<Rightarrow> error + DataBuffer" where
  "Init max_memory_usage max_disk_usage pop_functor disk_buffer should_remove_root fsys =
     (if max_memory_usage > max_disk_usage then Inl invalid_parameter
      else if \<not> root_exists fsys \<and> \<not> root_creatable fsys then Inl uninitialised
      else
        (case WriteFile (disk_buffer @ ''/TestFile'') ''Test'' (fsys\<lparr>root_exists := True\<rparr>) of
           None \<Rightarrow> Inl uninitialised
         | Some fsys1 \<Rightarrow>
             Inr \<lparr>memory_store = \<lparr>max_usage = max_memory_usage, current = 0, index = []\<rparr>,
                  disk_store = \<lparr>max_usage = max_disk_usage, current = 0, index = []\<rparr>,
                  kPopFunctor = pop_functor,
                  popped = [],
                  kDiskBuffer = disk_buffer,
                  kShouldRemoveRoot = should_remove_root,
                  running = True,
                  worker = NotReady,
                  worker_at = WaitingForWork,
                  fs = (case remove_path (disk_buffer @ ''/TestFile'') fsys1 of
                          None \<Rightarrow> fsys1 | Some fsys2 \<Rightarrow> fsys2)\<rparr>))"

subsection \<open>Worker supervision\<close>

definition StopRunning :: "DataBuffer \<Rightarrow> DataBuffer" where
  "StopRunning s = s\<lparr>running := False\<rparr>"

text \<open>\<^verbatim>\<open>CheckWorkerIsStillRunning\<close>: a ready future is consumed by \<^verbatim>\<open>get()\<close>, which rethrows
  the worker's exception if there is one; then a cleared \<^verbatim>\<open>running_\<close> throws.\<close>

definition CheckWorkerIsStillRunning :: "DataBuffer \<Rightarrow> unit result" where
  "CheckWorkerIsStillRunning s =
     (case worker s of
        ReadyError e \<Rightarrow> (Inl e, s\<lparr>worker := Invalid\<rparr>)
      | ReadyOk \<Rightarrow>
          (if \<not> running s then (Inl filesystem_io_error, s\<lparr>worker := Invalid\<rparr>)
           else (Inr (), s\<lparr>worker := Invalid\<rparr>))
      | _ \<Rightarrow> (if \<not> running s then (Inl filesystem_io_error, s) else (Inr (), s)))"

subsection \<open>Resizing\<close>

definition SetMaxMemoryUsage :: "u64 \<Rightarrow> DataBuffer \<Rightarrow> unit result" where
  "SetMaxMemoryUsage max_memory_usage s =
     (if max_memory_usage > max_usage (disk_store s) then (Inl invalid_parameter, s)
      else (Inr (), s\<lparr>memory_store := (memory_store s)\<lparr>max_usage := max_memory_usage\<rparr>\<rparr>))"

definition SetMaxDiskUsage :: "u64 \<Rightarrow> DataBuffer \<Rightarrow> unit result" where
  "SetMaxDiskUsage max_disk_usage s =
     (if max_usage (memory_store s) > max_disk_usage then (Inl invalid_parameter, s)
      else (Inr (), s\<lparr>disk_store := (disk_store s)\<lparr>max_usage := max_disk_usage\<rparr>\<rparr>))"

subsection \<open>Delete\<close>

text \<open>\<^verbatim>\<open>RemoveFile\<close>: the size is read first, the content if the caller asked for it
  (\<open>want_value\<close> stands for a non-null \<^verbatim>\<open>value\<close> pointer), then the file is removed and its
  size subtracted.  \<open>None\<close> is a throw of \<open>filesystem_io_error\<close>, which leaves the buffer as it
  was.\<close>

definition RemoveFile ::
  "string \<Rightarrow> bool \<Rightarrow> DataBuffer \<Rightarrow> (string \<times> DataBuffer) option" where
  "RemoveFile key want_value s =
     (case file_size (GetFilename (kDiskBuffer s) key) (fs s) of
        None \<Rightarrow> None
      | Some sz \<Rightarrow>
          (case (if want_value then ReadFile (GetFilename (kDiskBuffer s) key) (fs s)
                 else Some []) of
             None \<Rightarrow> None
           | Some v \<Rightarrow>
               (case remove_path (GetFilename (kDiskBuffer s) key) (fs s) of
                  None \<Rightarrow> None
                | Some fsys \<Rightarrow>
                    Some (v, s\<lparr>fs := fsys,
                               disk_store := (disk_store s)
                                 \<lparr>current := current (disk_store s) - sz\<rparr>\<rparr>))))"

definition DeleteFromMemory :: "string \<Rightarrow> DataBuffer \<Rightarrow> StoringState \<times> DataBuffer" where
  "DeleteFromMemory key s =
     (if FindMemory s key \<noteq> memory_end s
      then (also_on_disk (index (memory_store s) ! FindMemory s key),
            s\<lparr>memory_store := (memory_store s)
                 \<lparr>current := current (memory_store s)
                     - size_of (m_value (index (memory_store s) ! FindMemory s key)),
                  index := erase (index (memory_store s)) (FindMemory s key)\<rparr>\<rparr>)
      else (kCompleted, s))"

definition DeleteFromDisk :: "string \<Rightarrow> DataBuffer \<Rightarrow> unit result" where
  "DeleteFromDisk key s =
     (if FindDisk s key = disk_end s then (Inl no_such_element, s)
      else if d_state (index (disk_store s) ! FindDisk s key) = kStarted
      then (Inr (), s\<lparr>disk_store := (disk_store s)
                       \<lparr>index := (index (disk_store s))
                          [FindDisk s key :=
                             (index (disk_store s) ! FindDisk s key)\<lparr>d_state := kCancelled\<rparr>]\<rparr>\<rparr>)
      else if d_state (index (disk_store s) ! FindDisk s key) = kCompleted
      then (case RemoveFile (d_key (index (disk_store s) ! FindDisk s key)) False s of
              None \<Rightarrow> (Inl filesystem_io_error, s)
            | Some (_, s1) \<Rightarrow>
                (Inr (), s1\<lparr>disk_store := (disk_store s1)
                            \<lparr>index := erase (index (disk_store s1)) (FindDisk s key)\<rparr>\<rparr>))
      else (Inr (), s))"

definition Delete :: "string \<Rightarrow> DataBuffer \<Rightarrow> unit result" where
  "Delete key s =
     (case CheckWorkerIsStillRunning s of
        (Inl e, s1) \<Rightarrow> (Inl e, s1)
      | (Inr _, s1) \<Rightarrow>
          (case DeleteFromMemory key s1 of
             (on_disk, s2) \<Rightarrow>
               if on_disk \<noteq> kNotStarted then DeleteFromDisk key s2 else (Inr (), s2)))"

subsection \<open>Facts about iterators\<close>

lemma find_if_le: "find_if P xs \<le> length xs"
  by (induction xs) auto

lemma find_if_end: "find_if P xs = length xs \<longleftrightarrow> (\<forall>x \<in> set xs. \<not> P x)"
proof (induction xs)
  case Nil
  show ?case by simp
next
  case (Cons x xs)
  have "find_if P xs \<le> length xs" by (rule find_if_le)
  with Cons show ?case by auto
qed

lemma find_if_found: "find_if P xs \<noteq> length xs \<Longrightarrow> P (xs ! find_if P xs)"
  by (induction xs) (auto split: if_splits)

lemma find_if_first: "i < find_if P xs \<Longrightarrow> \<not> P (xs ! i)"
proof (induction xs arbitrary: i)
  case Nil
  then show ?case by simp
next
  case (Cons x xs)
  then show ?case by (cases i) (auto split: if_splits)
qed

lemma length_erase: "itr < length xs \<Longrightarrow> length (erase xs itr) = length xs - 1"
  by (simp add: erase_def)

lemma RemoveFile_index:
  "RemoveFile key want_value s = Some (v, s1) \<Longrightarrow> index (disk_store s1) = index (disk_store s)"
  by (auto simp: RemoveFile_def split: option.splits)

subsection \<open>The disk-write path\<close>

datatype disk_wait =
    DiskWaitOver bool DataBuffer
  | DiskWaitBlocked DataBuffer
  | DiskWaitThrew error DataBuffer
  | DiskWaitSpins DataBuffer

text \<open>\<^verbatim>\<open>WaitForSpaceOnDisk\<close>, entered with the disk mutex held.  \<open>DiskWaitOver cancelled\<close> is
  a return with the value of the reference parameter \<^verbatim>\<open>cancelled\<close>.  Without a pop functor
  the loop suspends on the condition variable; waking up re-enters the loop at its guard.
  With a pop functor the loop never releases the mutex: it pops the front record if that is
  completed, and otherwise iterates on an unchanged buffer for ever.\<close>

function WaitForSpaceOnDisk :: "string \<Rightarrow> u64 \<Rightarrow> DataBuffer \<Rightarrow> disk_wait" where
  "WaitForSpaceOnDisk key required_space s =
     (if \<not> HasSpace (disk_store s) required_space \<and> running s then
        (if FindDisk s key = disk_end s then DiskWaitOver True s
         else if d_state (index (disk_store s) ! FindDisk s key) = kCancelled
         then DiskWaitOver True
                (s\<lparr>disk_store := (disk_store s)
                     \<lparr>index := erase (index (disk_store s)) (FindDisk s key)\<rparr>\<rparr>)
         else if kPopFunctor s then
           (if d_state (index (disk_store s) ! FindOldestOnDisk s) = kCompleted then
              (case RemoveFile (d_key (index (disk_store s) ! FindOldestOnDisk s)) True s of
                 None \<Rightarrow> DiskWaitThrew filesystem_io_error s
               | Some (oldest_value, s1) \<Rightarrow>
                   WaitForSpaceOnDisk key required_space
                     (s1\<lparr>disk_store := (disk_store s1)
                           \<lparr>index := erase (index (disk_store s1)) (FindOldestOnDisk s)\<rparr>,
                         popped := popped s1
                           @ [(d_key (index (disk_store s) ! FindOldestOnDisk s), oldest_value)]\<rparr>))
            else DiskWaitSpins s)
         else DiskWaitBlocked s)
      else DiskWaitOver False s)"
  by pat_completeness auto
termination
proof (relation "measure (\<lambda>(key, required_space, s). length (index (disk_store s)))")
  fix key :: string and required_space :: u64 and s x2 oldest_value s1
  assume found: "FindDisk s key \<noteq> disk_end s"
    and rm: "RemoveFile (d_key (index (disk_store s) ! FindOldestOnDisk s)) True s = Some x2"
    and x2: "(oldest_value, s1) = x2"
  from found have "index (disk_store s) \<noteq> []"
    by (auto simp: FindDisk_def disk_end_def)
  moreover from rm x2 have "index (disk_store s1) = index (disk_store s)"
    by (metis RemoveFile_index)
  ultimately show
    "((key, required_space,
       s1\<lparr>disk_store := (disk_store s1)
             \<lparr>index := erase (index (disk_store s1)) (FindOldestOnDisk s)\<rparr>,
          popped := popped s1
            @ [(d_key (index (disk_store s) ! FindOldestOnDisk s), oldest_value)]\<rparr>),
      key, required_space, s)
     \<in> measure (\<lambda>(key, required_space, s). length (index (disk_store s)))"
    by (simp add: length_erase FindOldestOnDisk_def)
qed simp

declare WaitForSpaceOnDisk.simps [simp del]

definition StoreOnDisk_write :: "string \<Rightarrow> string \<Rightarrow> bool \<Rightarrow> DataBuffer \<Rightarrow> outcome" where
  "StoreOnDisk_write key v cancelled s =
     (if \<not> running s then Returned None s
      else if \<not> cancelled then
        (case WriteFile (GetFilename (kDiskBuffer s) key) v (fs s) of
           None \<Rightarrow> Threw filesystem_io_error (StopRunning s)
         | Some fsys \<Rightarrow>
             Returned None
               (s\<lparr>fs := fsys,
                  disk_store := (disk_store s)
                    \<lparr>current := current (disk_store s) + size_of v,
                     index :=
                       (if FindStartedToStoreOnDisk s key \<noteq> disk_end s
                        then (index (disk_store s))
                               [FindStartedToStoreOnDisk s key :=
                                  (index (disk_store s) ! FindStartedToStoreOnDisk s key)
                                    \<lparr>d_state := kCompleted\<rparr>]
                        else index (disk_store s))\<rparr>\<rparr>))
      else Returned None s)"

text \<open>\<^verbatim>\<open>StoreOnDisk\<close> from the call of \<^verbatim>\<open>WaitForSpaceOnDisk\<close> on; this is also where a
  thread suspended in that wait continues.\<close>

definition StoreOnDisk_wait :: "string \<Rightarrow> string \<Rightarrow> DataBuffer \<Rightarrow> outcome" where
  "StoreOnDisk_wait key v s =
     (case WaitForSpaceOnDisk key (size_of v) s of
        DiskWaitOver cancelled s1 \<Rightarrow> StoreOnDisk_write key v cancelled s1
      | DiskWaitBlocked s1 \<Rightarrow> Blocked (InWaitForSpaceOnDisk key v) s1
      | DiskWaitThrew e s1 \<Rightarrow> Threw e s1
      | DiskWaitSpins s1 \<Rightarrow> Hung s1)"

definition StoreOnDisk :: "string \<Rightarrow> string \<Rightarrow> DataBuffer \<Rightarrow> outcome" where
  "StoreOnDisk key v s =
     (if size_of v > max_usage (disk_store s) then Threw cannot_exceed_limit (StopRunning s)
      else StoreOnDisk_wait key v
             (s\<lparr>disk_store := (disk_store s)
                  \<lparr>index := index (disk_store s) @ [\<lparr>d_key = key, d_state = kStarted\<rparr>]\<rparr>\<rparr>))"

subsection \<open>Store\<close>

datatype memory_wait = SpaceWaitOver DataBuffer | SpaceWaitBlocked DataBuffer

definition FindCompletedInMemory :: "DataBuffer \<Rightarrow> nat" where
  "FindCompletedInMemory s =
     find_if (\<lambda>key_value. also_on_disk key_value = kCompleted) (index (memory_store s))"

text \<open>\<^verbatim>\<open>WaitForSpaceInMemory\<close> with \<^verbatim>\<open>FindMemoryRemovalCandidate\<close> inlined, entered with
  the memory mutex held.  With \<open>woken = False\<close> the loop is entered at its guard; with
  \<open>woken = True\<close> a thread suspended in the wait of \<^verbatim>\<open>FindMemoryRemovalCandidate\<close> evaluates
  the wait's predicate again.  The predicate sets \<^verbatim>\<open>itr\<close> to the first element whose
  \<^verbatim>\<open>also_on_disk\<close> is \<^verbatim>\<open>kCompleted\<close>.\<close>

function WaitForSpaceInMemory :: "bool \<Rightarrow> u64 \<Rightarrow> DataBuffer \<Rightarrow> memory_wait" where
  "WaitForSpaceInMemory woken required_space s =
     (if \<not> woken \<and> HasSpace (memory_store s) required_space then SpaceWaitOver s
      else if \<not> (FindCompletedInMemory s \<noteq> memory_end s
                  \<or> HasSpace (memory_store s) required_space \<or> \<not> running s)
      then SpaceWaitBlocked s
      else if \<not> running s then SpaceWaitOver s
      else if FindCompletedInMemory s \<noteq> memory_end s then
        WaitForSpaceInMemory False required_space
          (s\<lparr>memory_store := (memory_store s)
               \<lparr>current := current (memory_store s)
                   - size_of (m_value (index (memory_store s) ! FindCompletedInMemory s)),
                index := erase (index (memory_store s)) (FindCompletedInMemory s)\<rparr>\<rparr>)
      else WaitForSpaceInMemory False required_space s)"
  by pat_completeness auto
termination
proof (relation "measure (\<lambda>(woken, required_space, s).
          2 * length (index (memory_store s)) + (if woken then 1 else 0))")
  fix woken :: bool and required_space :: u64 and s
  assume "FindCompletedInMemory s \<noteq> memory_end s"
  then have "FindCompletedInMemory s < length (index (memory_store s))"
    using find_if_le [of "\<lambda>key_value. also_on_disk key_value = kCompleted" "index (memory_store s)"]
    by (simp add: FindCompletedInMemory_def memory_end_def)
  then show
    "((False, required_space,
       s\<lparr>memory_store := (memory_store s)
            \<lparr>current := current (memory_store s)
                - size_of (m_value (index (memory_store s) ! FindCompletedInMemory s)),
             index := erase (index (memory_store s)) (FindCompletedInMemory s)\<rparr>\<rparr>),
      woken, required_space, s)
     \<in> measure (\<lambda>(woken, required_space, s).
          2 * length (index (memory_store s)) + (if woken then 1 else 0))"
    by (simp add: length_erase)
next
  fix woken :: bool and required_space :: u64 and s
  assume "\<not> (\<not> woken \<and> HasSpace (memory_store s) required_space)"
    and "\<not> \<not> (FindCompletedInMemory s \<noteq> memory_end s
            \<or> HasSpace (memory_store s) required_space \<or> \<not> running s)"
    and "\<not> \<not> running s"
    and "\<not> FindCompletedInMemory s \<noteq> memory_end s"
  then have woken by auto
  then show "((False, required_space, s), woken, required_space, s)
     \<in> measure (\<lambda>(woken, required_space, s).
          2 * length (index (memory_store s)) + (if woken then 1 else 0))"
    by simp
qed simp

declare WaitForSpaceInMemory.simps [simp del]

text \<open>\<^verbatim>\<open>StoreInMemory\<close> after \<^verbatim>\<open>WaitForSpaceInMemory\<close> has returned, the memory mutex still
  held.  With \<^verbatim>\<open>running_\<close> cleared, \<^verbatim>\<open>worker_.get()\<close> is called on a valid future: it
  rethrows a stored exception, returns at once if the worker has returned, and otherwise waits
  for the worker, which cannot finish without the memory mutex.  In every case that does not
  throw, the function returns an empty lock and \<^verbatim>\<open>Store\<close> returns.\<close>

definition StoreInMemory_insert :: "string \<Rightarrow> string \<Rightarrow> DataBuffer \<Rightarrow> outcome" where
  "StoreInMemory_insert key v s =
     (if \<not> running s then
        (case worker s of
           NotReady \<Rightarrow> Hung s
         | ReadyOk \<Rightarrow> Returned None (s\<lparr>worker := Invalid\<rparr>)
         | ReadyError e \<Rightarrow> Threw e (s\<lparr>worker := Invalid\<rparr>)
         | Invalid \<Rightarrow> Returned None s)
      else Returned None
             (s\<lparr>memory_store := (memory_store s)
                  \<lparr>current := current (memory_store s) + size_of v,
                   index := index (memory_store s)
                     @ [\<lparr>m_key = key, m_value = v, also_on_disk = kNotStarted\<rparr>]\<rparr>\<rparr>))"

definition StoreInMemory_wait :: "bool \<Rightarrow> string \<Rightarrow> string \<Rightarrow> DataBuffer \<Rightarrow> outcome" where
  "StoreInMemory_wait woken key v s =
     (case WaitForSpaceInMemory woken (size_of v) s of
        SpaceWaitBlocked s1 \<Rightarrow> Blocked (InWaitForSpaceInMemory key v) s1
      | SpaceWaitOver s1 \<Rightarrow> StoreInMemory_insert key v s1)"

text \<open>\<^verbatim>\<open>StoreInMemory\<close> returns the locked disk mutex when the value is larger than the
  memory maximum, and an empty lock otherwise.\<close>

datatype store_in_memory = DiskLock DataBuffer | NoLock outcome

definition StoreInMemory :: "string \<Rightarrow> string \<Rightarrow> DataBuffer \<Rightarrow> store_in_memory" where
  "StoreInMemory key v s =
     (if size_of v > max_usage (memory_store s) then DiskLock s
      else NoLock (StoreInMemory_wait False key v s))"

text \<open>\<^verbatim>\<open>Store\<close>: the \<^verbatim>\<open>Delete\<close> in the \<^verbatim>\<open>try\<close> block keeps its effects whether it
  returns or throws; the handler catches \<^verbatim>\<open>std::exception\<close>.\<close>

definition Store :: "string \<Rightarrow> string \<Rightarrow> DataBuffer \<Rightarrow> outcome" where
  "Store key v s =
     (case CheckWorkerIsStillRunning (snd (Delete key s)) of
        (Inl e, s1) \<Rightarrow> Threw e s1
      | (Inr _, s1) \<Rightarrow>
          (case StoreInMemory key v s1 of
             DiskLock s2 \<Rightarrow> StoreOnDisk key v s2
           | NoLock out \<Rightarrow> out))"

subsection \<open>Get\<close>

definition FindAndThrowIfCancelled :: "string \<Rightarrow> DataBuffer \<Rightarrow> error + nat" where
  "FindAndThrowIfCancelled key s =
     (if FindDisk s key = disk_end s
         \<or> d_state (index (disk_store s) ! FindDisk s key) = kCancelled
      then Inl no_such_element else Inr (FindDisk s key))"

definition Get_read :: "string \<Rightarrow> DataBuffer \<Rightarrow> outcome" where
  "Get_read key s =
     (case ReadFile (GetFilename (kDiskBuffer s) key) (fs s) of
        None \<Rightarrow> Threw filesystem_io_error s
      | Some content \<Rightarrow> Returned (Some content) s)"

text \<open>The wait of \<^verbatim>\<open>Get\<close> on the disk condition variable and what follows it; its predicate
  is that the key has no record or that its record is not \<^verbatim>\<open>kStarted\<close>.\<close>

definition Get_wait :: "string \<Rightarrow> DataBuffer \<Rightarrow> outcome" where
  "Get_wait key s =
     (if FindDisk s key = disk_end s
         \<or> d_state (index (disk_store s) ! FindDisk s key) \<noteq> kStarted
      then (case FindAndThrowIfCancelled key s of
              Inl e \<Rightarrow> Threw e s
            | Inr _ \<Rightarrow> Get_read key s)
      else Blocked (InGetWait key) s)"

definition Get_disk :: "string \<Rightarrow> DataBuffer \<Rightarrow> outcome" where
  "Get_disk key s =
     (case FindAndThrowIfCancelled key s of
        Inl e \<Rightarrow> Threw e s
      | Inr itr \<Rightarrow>
          if d_state (index (disk_store s) ! itr) = kStarted then Get_wait key s
          else Get_read key s)"

definition Get :: "string \<Rightarrow> DataBuffer \<Rightarrow> outcome" where
  "Get key s =
     (case CheckWorkerIsStillRunning s of
        (Inl e, s1) \<Rightarrow> Threw e s1
      | (Inr _, s1) \<Rightarrow>
          if FindMemory s1 key \<noteq> memory_end s1
          then Returned (Some (m_value (index (memory_store s1) ! FindMemory s1 key))) s1
          else Get_disk key s1)"

subsection \<open>Suspended callers\<close>

definition resume :: "caller_pc \<Rightarrow> DataBuffer \<Rightarrow> outcome" where
  "resume pc s =
     (case pc of
        InWaitForSpaceInMemory key v \<Rightarrow> StoreInMemory_wait True key v s
      | InWaitForSpaceOnDisk key v \<Rightarrow> StoreOnDisk_wait key v s
      | InGetWait key \<Rightarrow> Get_wait key s)"

subsection \<open>The spill worker\<close>

definition worker_exit :: "worker_future \<Rightarrow> DataBuffer \<Rightarrow> DataBuffer" where
  "worker_exit r s = s\<lparr>worker_at := Finished, worker := r\<rparr>"

definition after_StoreOnDisk :: "string \<Rightarrow> outcome \<Rightarrow> DataBuffer" where
  "after_StoreOnDisk key out =
     (case out of
        Returned _ s \<Rightarrow> s\<lparr>worker_at := AboutToMark key\<rparr>
      | Blocked pc s \<Rightarrow>
          (case pc of
             InWaitForSpaceOnDisk k v \<Rightarrow> s\<lparr>worker_at := WaitingForDiskSpace k v\<rparr>
           | _ \<Rightarrow> s)
      | Threw e s \<Rightarrow> worker_exit (ReadyError e) s
      | Hung s \<Rightarrow> s\<lparr>worker_at := Spinning\<rparr>)"

text \<open>One step of \<^verbatim>\<open>CopyQueueToDisk\<close>, from one point where the worker holds no mutex (or is
  suspended on a condition variable) to the next; \<open>None\<close> when the worker cannot move.
  \<^item> At the top of the loop it waits for an element that is \<^verbatim>\<open>kNotStarted\<close> or for
    \<^verbatim>\<open>running_\<close> to clear, copies key and value, marks the element \<^verbatim>\<open>kStarted\<close> and runs
    \<^verbatim>\<open>StoreOnDisk\<close>.
  \<^item> Suspended in \<^verbatim>\<open>WaitForSpaceOnDisk\<close>, it re-enters that loop.
  \<^item> After \<^verbatim>\<open>StoreOnDisk\<close> it locks the memory mutex again, looks the key up and marks
    what it finds \<^verbatim>\<open>kCompleted\<close>.\<close>

definition CopyQueueToDisk_step :: "DataBuffer \<Rightarrow> DataBuffer option" where
  "CopyQueueToDisk_step s =
     (case worker_at s of
        WaitingForWork \<Rightarrow>
          (if \<not> (FindOldestInMemoryOnly s \<noteq> memory_end s \<or> \<not> running s) then None
           else if \<not> running s then Some (worker_exit ReadyOk s)
           else Some (after_StoreOnDisk (m_key (index (memory_store s) ! FindOldestInMemoryOnly s))
                  (StoreOnDisk (m_key (index (memory_store s) ! FindOldestInMemoryOnly s))
                     (m_value (index (memory_store s) ! FindOldestInMemoryOnly s))
                     (s\<lparr>memory_store := (memory_store s)
                          \<lparr>index := (index (memory_store s))
                             [FindOldestInMemoryOnly s :=
                                (index (memory_store s) ! FindOldestInMemoryOnly s)
                                  \<lparr>also_on_disk := kStarted\<rparr>]\<rparr>\<rparr>))))
      | WaitingForDiskSpace key v \<Rightarrow> Some (after_StoreOnDisk key (StoreOnDisk_wait key v s))
      | AboutToMark key \<Rightarrow>
          Some (s\<lparr>worker_at := WaitingForWork,
                  memory_store := (memory_store s)
                    \<lparr>index :=
                       (if FindMemory s key \<noteq> memory_end s
                        then (index (memory_store s))
                               [FindMemory s key :=
                                  (index (memory_store s) ! FindMemory s key)
                                    \<lparr>also_on_disk := kCompleted\<rparr>]
                        else index (memory_store s))\<rparr>\<rparr>)
      | Finished \<Rightarrow> None
      | Spinning \<Rightarrow> None)"

section \<open>The buffer with its threads\<close>

text \<open>A public operation runs as one step up to the point where it returns, throws or suspends
  on a condition variable; a suspended caller and the worker continue in later steps.  Every
  run of this system is a run of the source (the steps are scheduled one after the other);
  once a thread never returns while holding a mutex, no further step is taken.\<close>

datatype operation =
    OpStore string string
  | OpGet string
  | OpDelete string
  | OpSetMaxMemoryUsage u64
  | OpSetMaxDiskUsage u64

datatype action =
    Call nat operation
  | Wake nat
  | Worker
  | RemoveRoot

record system =
  buffer :: DataBuffer
  suspended :: "nat \<rightharpoonup> caller_pc"
  returns :: "(nat \<times> (error + string option)) list"
  stuck :: bool

definition of_result :: "unit result \<Rightarrow> outcome" where
  "of_result r = (case r of (Inl e, s) \<Rightarrow> Threw e s | (Inr _, s) \<Rightarrow> Returned None s)"

definition call :: "operation \<Rightarrow> DataBuffer \<Rightarrow> outcome" where
  "call op s =
     (case op of
        OpStore key v \<Rightarrow> Store key v s
      | OpGet key \<Rightarrow> Get key s
      | OpDelete key \<Rightarrow> of_result (Delete key s)
      | OpSetMaxMemoryUsage m \<Rightarrow> of_result (SetMaxMemoryUsage m s)
      | OpSetMaxDiskUsage m \<Rightarrow> of_result (SetMaxDiskUsage m s))"

definition settle :: "nat \<Rightarrow> outcome \<Rightarrow> system \<Rightarrow> system" where
  "settle tid out sys =
     (case out of
        Returned r s \<Rightarrow>
          sys\<lparr>buffer := s, suspended := (suspended sys)(tid := None),
              returns := returns sys @ [(tid, Inr r)]\<rparr>
      | Threw e s \<Rightarrow>
          sys\<lparr>buffer := s, suspended := (suspended sys)(tid := None),
              returns := returns sys @ [(tid, Inl e)]\<rparr>
      | Blocked pc s \<Rightarrow> sys\<lparr>buffer := s, suspended := (suspended sys)(tid \<mapsto> pc)\<rparr>
      | Hung s \<Rightarrow> sys\<lparr>buffer := s, suspended := (suspended sys)(tid := None), stuck := True\<rparr>)"

definition exec :: "action \<Rightarrow> system \<Rightarrow> system option" where
  "exec a sys =
     (if stuck sys then None
      else case a of
        Call tid op \<Rightarrow>
          (case suspended sys tid of
             None \<Rightarrow> Some (settle tid (call op (buffer sys)) sys)
           | Some _ \<Rightarrow> None)
      | Wake tid \<Rightarrow>
          (case suspended sys tid of
             None \<Rightarrow> None
           | Some pc \<Rightarrow> Some (settle tid (resume pc (buffer sys)) sys))
      | Worker \<Rightarrow>
          (case CopyQueueToDisk_step (buffer sys) of
             None \<Rightarrow> None
           | Some s \<Rightarrow> Some (sys\<lparr>buffer := s, stuck := (worker_at s = Spinning)\<rparr>))
      | RemoveRoot \<Rightarrow>
          Some (sys\<lparr>buffer := (buffer sys)\<lparr>fs := remove_all_root (fs (buffer sys))\<rparr>\<rparr>))"

fun run :: "action list \<Rightarrow> system \<Rightarrow> system option" where
  "run [] sys = Some sys"
| "run (a # as) sys = (case exec a sys of None \<Rightarrow> None | Some sys1 \<Rightarrow> run as sys1)"

definition start :: "DataBuffer \<Rightarrow> system" where
  "start s = \<lparr>buffer = s, suspended = Map.empty, returns = [], stuck = False\<rparr>"

text \<open>The states the buffer can be in after construction and any sequence of steps.\<close>

definition reachable :: "DataBuffer \<Rightarrow> bool" where
  "reachable s \<longleftrightarrow>
     (\<exists>m d p dir rr fsys s0 acts sys.
        Init m d p dir rr fsys = Inr s0 \<and> run acts (start s0) = Some sys \<and> buffer sys = s)"

subsection \<open>What a step leaves unchanged\<close>

fun disk_wait_state :: "disk_wait \<Rightarrow> DataBuffer" where
  "disk_wait_state (DiskWaitOver _ s) = s"
| "disk_wait_state (DiskWaitBlocked s) = s"
| "disk_wait_state (DiskWaitThrew _ s) = s"
| "disk_wait_state (DiskWaitSpins s) = s"

fun memory_wait_state :: "memory_wait \<Rightarrow> DataBuffer" where
  "memory_wait_state (SpaceWaitOver s) = s"
| "memory_wait_state (SpaceWaitBlocked s) = s"

text \<open>No operation other than the two resize operations changes a maximum, and none sets
  \<^verbatim>\<open>running_\<close>.\<close>

definition kept :: "DataBuffer \<Rightarrow> DataBuffer \<Rightarrow> bool" where
  "kept s s' \<longleftrightarrow>
     max_usage (memory_store s') = max_usage (memory_store s)
     \<and> max_usage (disk_store s') = max_usage (disk_store s)
     \<and> (running s' \<longrightarrow> running s)"

subsection \<open>Eviction as the specification words it\<close>

text \<open>"Eviction always chooses the oldest Completed entry": the sequence without its
  front-most element whose state is \<^verbatim>\<open>kCompleted\<close> (unchanged if there is none).  This
  definition follows the specification, not the source; it is compared with the source's
  \<^const>\<open>erase\<close> at \<^const>\<open>FindCompletedInMemory\<close> below.\<close>

fun evict_oldest_completed :: "MemoryElement list \<Rightarrow> MemoryElement list" where
  "evict_oldest_completed [] = []"
| "evict_oldest_completed (e # es) =
     (if also_on_disk e = kCompleted then es else e # evict_oldest_completed es)"

text \<open>\<open>ys\<close> results from \<open>xs\<close> by evicting the oldest completed element some number of times,
  each time removing an element, and all elements that are not completed are still there, in
  order.\<close>

definition reclaimed :: "MemoryElement list \<Rightarrow> MemoryElement list \<Rightarrow> bool" where
  "reclaimed xs ys \<longleftrightarrow>
     (\<exists>n. ys = (evict_oldest_completed ^^ n) xs
          \<and> n \<le> length (filter (\<lambda>e. also_on_disk e = kCompleted) xs))
     \<and> filter (\<lambda>e. also_on_disk e \<noteq> kCompleted) ys
         = filter (\<lambda>e. also_on_disk e \<noteq> kCompleted) xs"

subsection \<open>Buffers with a single key\<close>

text \<open>Any number of steps of the worker alone.\<close>

definition worker_runs :: "DataBuffer \<Rightarrow> DataBuffer \<Rightarrow> bool" where
  "worker_runs = (\<lambda>s s'. CopyQueueToDisk_step s = Some s')\<^sup>*\<^sup>*"

text \<open>A running buffer in a usable directory whose only key is \<open>k\<close>: in memory with a
  value and a state, or not; on disk as a completed record with its spill file, or not.\<close>

definition single_key ::
  "u64 \<Rightarrow> u64 \<Rightarrow> bool \<Rightarrow> string \<Rightarrow> string \<Rightarrow> (string \<times> StoringState) option \<Rightarrow> string option
     \<Rightarrow> worker_pc \<Rightarrow> DataBuffer" where
  "single_key m d p dir k in_memory on_disk pc =
     \<lparr>memory_store =
        \<lparr>max_usage = m,
         current = (case in_memory of None \<Rightarrow> 0 | Some (v, st) \<Rightarrow> size_of v),
         index = (case in_memory of None \<Rightarrow> []
                  | Some (v, st) \<Rightarrow> [\<lparr>m_key = k, m_value = v, also_on_disk = st\<rparr>])\<rparr>,
      disk_store =
        \<lparr>max_usage = d,
         current = (case on_disk of None \<Rightarrow> 0 | Some w \<Rightarrow> size_of w),
         index = (case on_disk of None \<Rightarrow> [] | Some w \<Rightarrow> [\<lparr>d_key = k, d_state = kCompleted\<rparr>])\<rparr>,
      kPopFunctor = p,
      popped = [],
      kDiskBuffer = dir,
      kShouldRemoveRoot = False,
      running = True,
      worker = NotReady,
      worker_at = pc,
      fs = \<lparr>root_exists = True, root_creatable = True, root_writable = True,
            files = (case on_disk of None \<Rightarrow> Map.empty | Some w \<Rightarrow> [GetFilename dir k \<mapsto> w])\<rparr>\<rparr>"

definition stored_pair :: "string \<Rightarrow> (string \<times> StoringState) option \<times> string option \<Rightarrow> bool" where
  "stored_pair v pr \<longleftrightarrow>
     pr \<in> {(None, None),
            (Some (v, kNotStarted), None), (Some (v, kCompleted), None),
            (Some (v, kStarted), Some v), (Some (v, kCompleted), Some v),
            (None, Some v)}"

text \<open>\<open>holding\<close>: the buffers that hold the value \<open>v\<close> under the key \<open>k\<close> and nothing
  else, with the states of the element, the record and the worker that occur after stores of
  the key on a new buffer; \<open>spilling\<close>: those that occur after a single store;
  \<open>vacant\<close>: the empty ones.\<close>

definition holding ::
  "u64 \<Rightarrow> u64 \<Rightarrow> bool \<Rightarrow> string \<Rightarrow> string \<Rightarrow> string \<Rightarrow> DataBuffer \<Rightarrow> bool" where
  "holding m d p dir k v s \<longleftrightarrow>
     s \<in> {single_key m d p dir k (Some (v, kNotStarted)) None WaitingForWork,
          single_key m d p dir k (Some (v, kNotStarted)) None (AboutToMark k),
          single_key m d p dir k (Some (v, kCompleted)) None WaitingForWork,
          single_key m d p dir k (Some (v, kStarted)) (Some v) (AboutToMark k),
          single_key m d p dir k (Some (v, kCompleted)) (Some v) WaitingForWork,
          single_key m d p dir k None (Some v) WaitingForWork,
          single_key m d p dir k None (Some v) (AboutToMark k)}"

definition spilling ::
  "u64 \<Rightarrow> u64 \<Rightarrow> bool \<Rightarrow> string \<Rightarrow> string \<Rightarrow> string \<Rightarrow> DataBuffer \<Rightarrow> bool" where
  "spilling m d p dir k v s \<longleftrightarrow>
     s \<in> {single_key m d p dir k (Some (v, kNotStarted)) None WaitingForWork,
          single_key m d p dir k (Some (v, kStarted)) (Some v) (AboutToMark k),
          single_key m d p dir k (Some (v, kCompleted)) (Some v) WaitingForWork,
          single_key m d p dir k None (Some v) WaitingForWork}"

definition vacant :: "u64 \<Rightarrow> u64 \<Rightarrow> bool \<Rightarrow> string \<Rightarrow> string \<Rightarrow> DataBuffer \<Rightarrow> bool" where
  "vacant m d p dir k s \<longleftrightarrow>
     s \<in> {single_key m d p dir k None None WaitingForWork,
          single_key m d p dir k None None (AboutToMark k)}"

subsection \<open>Concrete buffers\<close>

definition usable_directory :: filesystem where
  "usable_directory =
     \<lparr>root_exists = False, root_creatable = True, root_writable = True, files = Map.empty\<rparr>"

text \<open>The buffer as \<^const>\<open>Init\<close> leaves it in a usable directory.\<close>

definition fresh :: "u64 \<Rightarrow> u64 \<Rightarrow> bool \<Rightarrow> string \<Rightarrow> DataBuffer" where
  "fresh max_memory_usage max_disk_usage pop_functor disk_buffer =
     \<lparr>memory_store = \<lparr>max_usage = max_memory_usage, current = 0, index = []\<rparr>,
      disk_store = \<lparr>max_usage = max_disk_usage, current = 0, index = []\<rparr>,
      kPopFunctor = pop_functor,
      popped = [],
      kDiskBuffer = disk_buffer,
      kShouldRemoveRoot = False,
      running = True,
      worker = NotReady,
      worker_at = WaitingForWork,
      fs = \<lparr>root_exists = True, root_creatable = True, root_writable = True,
            files = Map.empty\<rparr>\<rparr>"

text \<open>The buffer after a run of the system from a given buffer.\<close>

definition after :: "action list \<Rightarrow> DataBuffer \<Rightarrow> DataBuffer" where
  "after acts s = (case run acts (start s) of None \<Rightarrow> s | Some sys \<Rightarrow> buffer sys)"

text \<open>Memory and disk maximum 1: key \<open>1\<close> has been spilled and evicted from memory by the
  store of key \<open>2\<close>, which is in memory only.\<close>

definition two_tier_example :: DataBuffer where
  "two_tier_example =
     after [Call 0 (OpStore ''1'' ''a''), Worker, Worker, Call 0 (OpStore ''2'' ''b'')]
       (fresh 1 1 False ''d'')"

text \<open>A full memory tier holding elements in each state.\<close>

definition reclaim_example :: DataBuffer where
  "reclaim_example =
     (fresh 4 4 False ''d'')
       \<lparr>memory_store :=
          \<lparr>max_usage = 4, current = 4,
           index = [\<lparr>m_key = ''1'', m_value = ''a'', also_on_disk = kStarted\<rparr>,
                    \<lparr>m_key = ''2'', m_value = ''b'', also_on_disk = kCompleted\<rparr>,
                    \<lparr>m_key = ''3'', m_value = ''c'', also_on_disk = kNotStarted\<rparr>,
                    \<lparr>m_key = ''4'', m_value = ''d'', also_on_disk = kCompleted\<rparr>]\<rparr>\<rparr>"


definition system_after :: "action list \<Rightarrow> DataBuffer \<Rightarrow> system" where
  "system_after acts s = (case run acts (start s) of None \<Rightarrow> start s | Some sys \<Rightarrow> sys)"

subsection \<open>Accounting\<close>

text \<open>\<^verbatim>\<open>memory.current\<close> is the sum of the sizes of the values in the memory index;
  \<^verbatim>\<open>disk.current\<close> is the sum of the sizes of the spill files of the disk records that are
  \<^verbatim>\<open>kCompleted\<close>.\<close>

definition memory_accounted :: "DataBuffer \<Rightarrow> bool" where
  "memory_accounted s \<longleftrightarrow>
     current (memory_store s)
       = of_nat (sum_list (map (\<lambda>e. length (m_value e)) (index (memory_store s))))"

definition disk_accounted :: "DataBuffer \<Rightarrow> bool" where
  "disk_accounted s \<longleftrightarrow>
     current (disk_store s)
       = sum_list (map (\<lambda>e. case file_size (GetFilename (kDiskBuffer s) (d_key e)) (fs s) of
                               None \<Rightarrow> 0 | Some n \<Rightarrow> n)
                    (filter (\<lambda>e. d_state e = kCompleted) (index (disk_store s))))"

subsection \<open>Schedules\<close>

text \<open>Maxima 1 and 1, no pop functor.  Key \<open>1\<close> is stored and spilled; the store of key \<open>2\<close>
  evicts it from memory; the worker starts to spill key \<open>2\<close> and waits for disk space; key
  \<open>2\<close> is deleted (its record becomes cancelled), then key \<open>1\<close> (which makes room); only then
  does the worker wake up.\<close>

definition cancelled_spill_schedule :: "action list" where
  "cancelled_spill_schedule =
     [Call 0 (OpStore ''1'' ''a''), Worker, Worker, Call 0 (OpStore ''2'' ''b''), Worker,
      Call 0 (OpDelete ''2''), Call 0 (OpDelete ''1''), Worker]"

text \<open>Maxima 1 and 1.  The worker has written key \<open>1\<close> to disk and has not yet locked the
  memory mutex again when the key is deleted and stored anew.\<close>

definition restore_during_spill_schedule :: "action list" where
  "restore_during_spill_schedule =
     [Call 0 (OpStore ''1'' ''a''), Worker, Call 0 (OpDelete ''1''), Call 0 (OpStore ''1'' ''c'')]"

text \<open>Maxima 1 and 1.  Thread 1 waits for room in memory; thread 2 stores a value larger than
  the disk maximum, which stops the buffer; the worker returns; thread 1 wakes up.\<close>

definition stopped_while_waiting_schedule :: "action list" where
  "stopped_while_waiting_schedule =
     [Call 0 (OpStore ''1'' ''a''), Call 1 (OpStore ''2'' ''b''), Call 2 (OpStore ''3'' ''cc''),
      Worker, Wake 1]"

text \<open>Maxima 1 and 4.  The worker waits for disk space to spill key \<open>2\<close>; room is made; before
  the worker wakes up, one thread stores key \<open>2\<close> twice with values larger than the memory
  maximum and reads it back.\<close>

definition restore_schedule :: "action list" where
  "restore_schedule =
     [Call 0 (OpStore ''1'' ''aaaa''), Call 0 (OpStore ''2'' ''b''), Worker,
      Call 0 (OpDelete ''1''),
      Call 0 (OpStore ''2'' ''xx''), Call 0 (OpStore ''2'' ''yy''), Call 0 (OpGet ''2'')]"

lemmas buffer_defs = Store_def Delete_def DeleteFromMemory_def DeleteFromDisk_def RemoveFile_def
  CheckWorkerIsStillRunning_def StoreInMemory_def StoreInMemory_wait_def StoreInMemory_insert_def
  StoreOnDisk_def StoreOnDisk_wait_def StoreOnDisk_write_def StopRunning_def
  Get_def Get_disk_def Get_wait_def Get_read_def FindAndThrowIfCancelled_def
  resume_def worker_exit_def after_StoreOnDisk_def CopyQueueToDisk_step_def
  SetMaxMemoryUsage_def SetMaxDiskUsage_def
  FindMemory_def FindDisk_def FindOldestInMemoryOnly_def FindStartedToStoreOnDisk_def
  FindOldestOnDisk_def FindCompletedInMemory_def memory_end_def disk_end_def size_of_def
  HasSpace_def erase_def
  WriteFile_def ReadFile_def file_size_def remove_path_def remove_all_root_def
  GetFilename_def HexEncode_def kHexAlphabet_def
  call_def settle_def exec_def start_def of_result_def fresh_def after_def system_after_def
  WaitForSpaceOnDisk.simps WaitForSpaceInMemory.simps

section \<open>Properties\<close>

subsection \<open>Spill-file names\<close>

lemma distinct_kHexAlphabet: "distinct kHexAlphabet"
  by (simp add: kHexAlphabet_def)

lemma hex_digit_inj:
  assumes "i < 16" "j < 16" "kHexAlphabet ! i = kHexAlphabet ! j"
  shows "i = j"
proof -
  have "length kHexAlphabet = 16" by (simp add: kHexAlphabet_def)
  with assms distinct_kHexAlphabet show ?thesis
    by (simp add: nth_eq_iff_index_eq)
qed

lemma hex_pair_inj:
  assumes "kHexAlphabet ! ((of_char c :: nat) div 16) = kHexAlphabet ! ((of_char d :: nat) div 16)"
    and "kHexAlphabet ! ((of_char c :: nat) mod 16) = kHexAlphabet ! ((of_char d :: nat) mod 16)"
  shows "c = d"
proof -
  have "(of_char c :: nat) mod 256 = of_char c" "(of_char d :: nat) mod 256 = of_char d"
    by simp_all
  then have c: "(of_char c :: nat) < 256" and d: "(of_char d :: nat) < 256"
    by (metis mod_less_divisor zero_less_numeral)+
  then have "(of_char c :: nat) div 16 < 16" "(of_char d :: nat) div 16 < 16"
    by arith+
  with assms(1) have q: "(of_char c :: nat) div 16 = of_char d div 16"
    by (metis hex_digit_inj)
  have "(of_char c :: nat) mod 16 < 16" "(of_char d :: nat) mod 16 < 16" by simp_all
  with assms(2) have r: "(of_char c :: nat) mod 16 = of_char d mod 16"
    by (metis hex_digit_inj)
  from q r have "(of_char c :: nat) = of_char d"
    by (metis div_mult_mod_eq)
  then show ?thesis by simp
qed

lemma HexEncode_inj: "HexEncode k1 = HexEncode k2 \<Longrightarrow> k1 = k2"
proof (induction k1 arbitrary: k2)
  case Nil
  then show ?case by (cases k2) (simp_all add: HexEncode_def)
next
  case (Cons c k1)
  then show ?case
  proof (cases k2)
    case Nil
    with Cons.prems show ?thesis by (simp add: HexEncode_def)
  next
    case (Cons d k2')
    with Cons.prems have "c = d" and "HexEncode k1 = HexEncode k2'"
      by (auto simp: HexEncode_def intro: hex_pair_inj)
    with Cons.IH Cons show ?thesis by simp
  qed
qed

text \<open>Claim C10.  Under the default key encoding the spill-file name of a key is the spill
  directory joined with the hex encoding of the key's bytes; it is a function of the key
  (equal keys give the same path), and two keys have the same path only if they are equal.\<close>

theorem GetFilename_injective:
  "GetFilename dir key = dir @ ''/'' @ HexEncode key
   \<and> (GetFilename dir k1 = GetFilename dir k2 \<longleftrightarrow> k1 = k2)"
  by (auto simp: GetFilename_def dest: HexEncode_inj)

subsection \<open>Maxima\<close>

text \<open>Claim C5.  Construction and the two resize operations accept every pair of maxima with
  memory maximum \<open>\<le>\<close> disk maximum, equality included (construction then never throws
  \<open>invalid_parameter\<close>, and yields a buffer with these maxima when the spill directory is
  usable), and reject every pair with memory maximum \<open>>\<close> disk maximum with
  \<open>invalid_parameter\<close>; a rejected resize leaves the buffer, and so both maxima, unchanged.\<close>

theorem maxima_validated:
  fixes m d :: u64
  shows
  "(m \<le> d \<longrightarrow> Init m d p dir rr fsys \<noteq> Inl invalid_parameter
       \<and> ((root_exists fsys \<or> root_creatable fsys) \<and> root_writable fsys \<longrightarrow>
            (\<exists>s0. Init m d p dir rr fsys = Inr s0 \<and> max_usage (memory_store s0) = m
                   \<and> max_usage (disk_store s0) = d)))
   \<and> (d < m \<longrightarrow> Init m d p dir rr fsys = Inl invalid_parameter)
   \<and> (m \<le> max_usage (disk_store s) \<longrightarrow>
        SetMaxMemoryUsage m s = (Inr (), s\<lparr>memory_store := (memory_store s)\<lparr>max_usage := m\<rparr>\<rparr>))
   \<and> (max_usage (disk_store s) < m \<longrightarrow> SetMaxMemoryUsage m s = (Inl invalid_parameter, s))
   \<and> (max_usage (memory_store s) \<le> d \<longrightarrow>
        SetMaxDiskUsage d s = (Inr (), s\<lparr>disk_store := (disk_store s)\<lparr>max_usage := d\<rparr>\<rparr>))
   \<and> (d < max_usage (memory_store s) \<longrightarrow> SetMaxDiskUsage d s = (Inl invalid_parameter, s))"
  by (auto simp: Init_def SetMaxMemoryUsage_def SetMaxDiskUsage_def WriteFile_def
           split: option.splits)

theorem maxima_validated_witness:
  "Init 200000 200000 False ''DB'' True usable_directory \<noteq> Inl invalid_parameter
   \<and> (\<exists>s0. Init 200000 200000 False ''DB'' True usable_directory = Inr s0
            \<and> max_usage (memory_store s0) = 200000 \<and> max_usage (disk_store s0) = 200000)
   \<and> Init 200001 199999 False ''DB'' True usable_directory = Inl invalid_parameter
   \<and> fst (SetMaxMemoryUsage 200000 (fresh 200000 200000 False ''DB'')) = Inr ()
   \<and> SetMaxMemoryUsage 200001 (fresh 200000 200000 False ''DB'')
       = (Inl invalid_parameter, fresh 200000 200000 False ''DB'')
   \<and> fst (SetMaxDiskUsage 200000 (fresh 200000 200000 False ''DB'')) = Inr ()
   \<and> SetMaxDiskUsage 199999 (fresh 200000 200000 False ''DB'')
       = (Inl invalid_parameter, fresh 200000 200000 False ''DB'')"
  using maxima_validated [of 200000 200000 False "''DB''" True usable_directory
                             "fresh 200000 200000 False ''DB''"]
        maxima_validated [of 200001 199999 False "''DB''" True usable_directory
                             "fresh 200000 200000 False ''DB''"]
  by (simp add: usable_directory_def fresh_def)

subsection \<open>Get\<close>

lemma CheckWorker_stores:
  "memory_store (snd (CheckWorkerIsStillRunning s)) = memory_store s"
  "disk_store (snd (CheckWorkerIsStillRunning s)) = disk_store s"
  "fs (snd (CheckWorkerIsStillRunning s)) = fs s"
  "kDiskBuffer (snd (CheckWorkerIsStillRunning s)) = kDiskBuffer s"
  "running (snd (CheckWorkerIsStillRunning s)) = running s"
  by (auto simp: CheckWorkerIsStillRunning_def split: worker_future.splits if_splits)

lemma CheckWorker_ignores_disk:
  "CheckWorkerIsStillRunning (s\<lparr>disk_store := ds, fs := fsys\<rparr>)
     = (fst (CheckWorkerIsStillRunning s),
        snd (CheckWorkerIsStillRunning s)\<lparr>disk_store := ds, fs := fsys\<rparr>)"
  by (auto simp: CheckWorkerIsStillRunning_def split: worker_future.splits if_splits)

text \<open>Claim C6.  For a \<^verbatim>\<open>Get\<close> that passes the initial check of the worker (step 1 of the
  operation):
  \<^item> if the key is in the memory tier, its value is returned, whatever the disk tier and the
    spill directory contain;
  \<^item> otherwise, if the key has no disk record or its record is \<^verbatim>\<open>kCancelled\<close>, the call
    throws \<open>no_such_element\<close>;
  \<^item> otherwise, if the record is \<^verbatim>\<open>kCompleted\<close>, the call returns the content of the file
    \<^verbatim>\<open>GetFilename(key)\<close> (and throws \<open>filesystem_io_error\<close> if that file cannot be read).\<close>

theorem Get_lookup:
  assumes ok: "fst (CheckWorkerIsStillRunning s) = Inr ()"
  shows
    "(FindMemory s key \<noteq> memory_end s \<longrightarrow>
        (\<forall>ds fsys. Get key (s\<lparr>disk_store := ds, fs := fsys\<rparr>)
           = Returned (Some (m_value (index (memory_store s) ! FindMemory s key)))
               (snd (CheckWorkerIsStillRunning s)\<lparr>disk_store := ds, fs := fsys\<rparr>)))
     \<and> (FindMemory s key = memory_end s
          \<and> (FindDisk s key = disk_end s
              \<or> d_state (index (disk_store s) ! FindDisk s key) = kCancelled) \<longrightarrow>
        Get key s = Threw no_such_element (snd (CheckWorkerIsStillRunning s)))
     \<and> (FindMemory s key = memory_end s \<and> FindDisk s key \<noteq> disk_end s
          \<and> d_state (index (disk_store s) ! FindDisk s key) = kCompleted \<longrightarrow>
        Get key s =
          (case files (fs s) (GetFilename (kDiskBuffer s) key) of
             None \<Rightarrow> Threw filesystem_io_error (snd (CheckWorkerIsStillRunning s))
           | Some content \<Rightarrow> Returned (Some content) (snd (CheckWorkerIsStillRunning s))))"
proof -
  obtain s1 where s1: "CheckWorkerIsStillRunning s = (Inr (), s1)"
    using ok by (cases "CheckWorkerIsStillRunning s") auto
  have stores: "memory_store s1 = memory_store s" "disk_store s1 = disk_store s"
    "fs s1 = fs s" "kDiskBuffer s1 = kDiskBuffer s"
    using CheckWorker_stores [of s] s1 by simp_all
  have hit: "FindMemory s key \<noteq> memory_end s \<Longrightarrow>
      Get key (s\<lparr>disk_store := ds, fs := fsys\<rparr>)
        = Returned (Some (m_value (index (memory_store s) ! FindMemory s key)))
            (s1\<lparr>disk_store := ds, fs := fsys\<rparr>)" for ds fsys
    using s1 stores
    by (simp add: Get_def CheckWorker_ignores_disk FindMemory_def memory_end_def)
  have miss: "FindMemory s key = memory_end s \<Longrightarrow> Get key s = Get_disk key s1"
    using s1 stores by (simp add: Get_def FindMemory_def memory_end_def)
  have absent: "FindDisk s key = disk_end s
        \<or> d_state (index (disk_store s) ! FindDisk s key) = kCancelled \<Longrightarrow>
      Get_disk key s1 = Threw no_such_element s1"
    using stores
    by (simp add: Get_disk_def FindAndThrowIfCancelled_def FindDisk_def disk_end_def)
  have completed: "FindDisk s key \<noteq> disk_end s \<Longrightarrow>
      d_state (index (disk_store s) ! FindDisk s key) = kCompleted \<Longrightarrow>
      Get_disk key s1 =
        (case files (fs s) (GetFilename (kDiskBuffer s) key) of
           None \<Rightarrow> Threw filesystem_io_error s1
         | Some content \<Rightarrow> Returned (Some content) s1)"
    using stores
    by (simp add: Get_disk_def FindAndThrowIfCancelled_def FindDisk_def disk_end_def
          Get_read_def ReadFile_def)
  have s1_eq: "snd (CheckWorkerIsStillRunning s) = s1"
    using s1 by simp
  from hit miss absent completed show ?thesis
    unfolding s1_eq by simp
qed

theorem Get_lookup_witness:
  "fst (CheckWorkerIsStillRunning two_tier_example) = Inr ()
   \<and> Get ''2'' two_tier_example = Returned (Some ''b'') two_tier_example
   \<and> Get ''3'' two_tier_example = Threw no_such_element two_tier_example
   \<and> Get ''1'' two_tier_example = Returned (Some ''a'') two_tier_example"
  using Get_lookup [of two_tier_example "''2''"] Get_lookup [of two_tier_example "''3''"]
    Get_lookup [of two_tier_example "''1''"]
  by (simp add: two_tier_example_def buffer_defs)

subsection \<open>Maxima and the running flag under steps\<close>

lemma kept_refl: "kept s s"
  by (simp add: kept_def)

lemma kept_trans: "kept s s1 \<Longrightarrow> kept s1 s2 \<Longrightarrow> kept s s2"
  by (simp add: kept_def)

lemma kept_CheckWorker: "kept s (snd (CheckWorkerIsStillRunning s))"
  by (simp add: kept_def CheckWorkerIsStillRunning_def split: worker_future.splits)

lemma kept_RemoveFile: "RemoveFile key want_value s = Some (v, s1) \<Longrightarrow> kept s s1"
  by (auto simp: kept_def RemoveFile_def split: option.splits)

lemma kept_DeleteFromMemory: "kept s (snd (DeleteFromMemory key s))"
  by (simp add: kept_def DeleteFromMemory_def)

lemma kept_DeleteFromDisk: "kept s (snd (DeleteFromDisk key s))"
  using kept_RemoveFile [of _ False s]
  by (auto simp: kept_def DeleteFromDisk_def split: option.splits)

lemma kept_Delete: "kept s (snd (Delete key s))"
proof -
  obtain r s1 where c: "CheckWorkerIsStillRunning s = (r, s1)"
    by (cases "CheckWorkerIsStillRunning s")
  obtain st s2 where m: "DeleteFromMemory key s1 = (st, s2)"
    by (cases "DeleteFromMemory key s1")
  have 1: "kept s s1" using kept_CheckWorker [of s] c by simp
  have 2: "kept s1 s2" using kept_DeleteFromMemory [of s1 key] m by simp
  have 3: "kept s2 (snd (DeleteFromDisk key s2))" by (rule kept_DeleteFromDisk)
  from 1 2 3 have "kept s (snd (DeleteFromDisk key s2))" "kept s s2"
    by (blast intro: kept_trans)+
  with 1 c m show ?thesis
    by (cases r) (simp_all add: Delete_def)
qed

lemma kept_WaitForSpaceOnDisk: "kept s (disk_wait_state (WaitForSpaceOnDisk key required_space s))"
proof (induction key required_space s rule: WaitForSpaceOnDisk.induct)
  case (1 key required_space s)
  show ?case
  proof (cases "RemoveFile (d_key (index (disk_store s) ! FindOldestOnDisk s)) True s")
    case None
    then show ?thesis
      by (subst WaitForSpaceOnDisk.simps) (simp add: kept_def)
  next
    case (Some a)
    obtain v s1 where a: "a = (v, s1)" by (cases a)
    have k1: "kept s s1" using Some a kept_RemoveFile by simp
    let ?s2 = "s1\<lparr>disk_store := (disk_store s1)
                   \<lparr>index := erase (index (disk_store s1)) (FindOldestOnDisk s)\<rparr>,
                 popped := popped s1 @ [(d_key (index (disk_store s) ! FindOldestOnDisk s), v)]\<rparr>"
    have k2: "kept s ?s2" using k1 by (simp add: kept_def)
    show ?thesis
    proof (cases "\<not> HasSpace (disk_store s) required_space \<and> running s
        \<and> FindDisk s key \<noteq> disk_end s
        \<and> d_state (index (disk_store s) ! FindDisk s key) \<noteq> kCancelled
        \<and> kPopFunctor s \<and> d_state (index (disk_store s) ! FindOldestOnDisk s) = kCompleted")
      case True
      then have c: "\<not> HasSpace (disk_store s) required_space \<and> running s"
        "FindDisk s key \<noteq> disk_end s"
        "d_state (index (disk_store s) ! FindDisk s key) \<noteq> kCancelled"
        "kPopFunctor s" "d_state (index (disk_store s) ! FindOldestOnDisk s) = kCompleted"
        by simp_all
      have "kept ?s2 (disk_wait_state (WaitForSpaceOnDisk key required_space ?s2))"
        by (rule "1.IH" [OF c Some a [symmetric]])
      with k2 have "kept s (disk_wait_state (WaitForSpaceOnDisk key required_space ?s2))"
        by (rule kept_trans)
      with c Some show ?thesis
        by (subst WaitForSpaceOnDisk.simps) (simp add: a)
    next
      case False
      then show ?thesis
        by (subst WaitForSpaceOnDisk.simps) (auto simp: kept_def)
    qed
  qed
qed

lemma kept_StoreOnDisk_write: "kept s (state_of (StoreOnDisk_write key v cancelled s))"
  by (simp add: kept_def StoreOnDisk_write_def StopRunning_def split: option.splits)

lemma kept_StoreOnDisk_wait: "kept s (state_of (StoreOnDisk_wait key v s))"
proof -
  have w: "kept s (disk_wait_state (WaitForSpaceOnDisk key (size_of v) s))"
    by (rule kept_WaitForSpaceOnDisk)
  show ?thesis
  proof (cases "WaitForSpaceOnDisk key (size_of v) s")
    case (DiskWaitOver cancelled s1)
    with w have "kept s s1" by simp
    moreover have "kept s1 (state_of (StoreOnDisk_write key v cancelled s1))"
      by (rule kept_StoreOnDisk_write)
    ultimately show ?thesis
      using DiskWaitOver by (simp add: StoreOnDisk_wait_def kept_trans)
  qed (use w in \<open>simp_all add: StoreOnDisk_wait_def\<close>)
qed

lemma kept_StoreOnDisk: "kept s (state_of (StoreOnDisk key v s))"
proof (cases "size_of v > max_usage (disk_store s)")
  case True
  then show ?thesis by (simp add: StoreOnDisk_def StopRunning_def kept_def)
next
  case False
  let ?s1 = "s\<lparr>disk_store := (disk_store s)
                  \<lparr>index := index (disk_store s) @ [\<lparr>d_key = key, d_state = kStarted\<rparr>]\<rparr>\<rparr>"
  have "kept s ?s1" by (simp add: kept_def)
  moreover have "kept ?s1 (state_of (StoreOnDisk_wait key v ?s1))"
    by (rule kept_StoreOnDisk_wait)
  ultimately show ?thesis
    using False by (simp add: StoreOnDisk_def kept_trans)
qed

lemma kept_WaitForSpaceInMemory:
  "kept s (memory_wait_state (WaitForSpaceInMemory woken required_space s))"
proof (induction woken required_space s rule: WaitForSpaceInMemory.induct)
  case (1 woken required_space s)
  let ?s1 = "s\<lparr>memory_store := (memory_store s)
               \<lparr>current := current (memory_store s)
                   - size_of (m_value (index (memory_store s) ! FindCompletedInMemory s)),
                index := erase (index (memory_store s)) (FindCompletedInMemory s)\<rparr>\<rparr>"
  have k1: "kept s ?s1" by (simp add: kept_def)
  show ?case
  proof (cases "\<not> (\<not> woken \<and> HasSpace (memory_store s) required_space)
      \<and> (FindCompletedInMemory s \<noteq> memory_end s
           \<or> HasSpace (memory_store s) required_space \<or> \<not> running s)
      \<and> running s")
    case looping: True
    show ?thesis
    proof (cases "FindCompletedInMemory s \<noteq> memory_end s")
      case True
      with looping "1.IH"(1)
      have "kept ?s1 (memory_wait_state (WaitForSpaceInMemory False required_space ?s1))"
        by simp
      with k1 have "kept s (memory_wait_state (WaitForSpaceInMemory False required_space ?s1))"
        by (rule kept_trans)
      with looping True show ?thesis
        by (subst WaitForSpaceInMemory.simps) (simp add: kept_refl)
    next
      case False
      with looping "1.IH"(2)
      have "kept s (memory_wait_state (WaitForSpaceInMemory False required_space s))"
        by auto
      with looping False show ?thesis
        by (subst WaitForSpaceInMemory.simps) (simp add: kept_refl)
    qed
  next
    case False
    then show ?thesis
      by (subst WaitForSpaceInMemory.simps) (auto simp: kept_def)
  qed
qed

lemma kept_StoreInMemory_insert: "kept s (state_of (StoreInMemory_insert key v s))"
  by (simp add: kept_def StoreInMemory_insert_def split: worker_future.splits)

lemma kept_StoreInMemory_wait: "kept s (state_of (StoreInMemory_wait woken key v s))"
proof -
  have w: "kept s (memory_wait_state (WaitForSpaceInMemory woken (size_of v) s))"
    by (rule kept_WaitForSpaceInMemory)
  show ?thesis
  proof (cases "WaitForSpaceInMemory woken (size_of v) s")
    case (SpaceWaitOver s1)
    with w have "kept s s1" by simp
    moreover have "kept s1 (state_of (StoreInMemory_insert key v s1))"
      by (rule kept_StoreInMemory_insert)
    ultimately show ?thesis
      using SpaceWaitOver by (simp add: StoreInMemory_wait_def kept_trans)
  next
    case (SpaceWaitBlocked s1)
    with w show ?thesis by (simp add: StoreInMemory_wait_def)
  qed
qed

lemma kept_Store: "kept s (state_of (Store key v s))"
proof -
  let ?s0 = "snd (Delete key s)"
  obtain r s1 where c: "CheckWorkerIsStillRunning ?s0 = (r, s1)"
    by (cases "CheckWorkerIsStillRunning ?s0")
  have "kept s ?s0" by (rule kept_Delete)
  moreover have "kept ?s0 s1" using kept_CheckWorker [of ?s0] c by simp
  ultimately have k: "kept s s1" by (rule kept_trans)
  show ?thesis
  proof (cases r)
    case (Inl e)
    with c k show ?thesis by (simp add: Store_def)
  next
    case (Inr u)
    have "kept s1 (state_of (StoreOnDisk key v s1))" by (rule kept_StoreOnDisk)
    moreover have "kept s1 (state_of (StoreInMemory_wait False key v s1))"
      by (rule kept_StoreInMemory_wait)
    ultimately show ?thesis
      using c k Inr by (auto simp: Store_def StoreInMemory_def intro: kept_trans)
  qed
qed

lemma kept_Get_wait: "kept s (state_of (Get_wait key s))"
  by (simp add: kept_def Get_wait_def Get_read_def split: sum.splits option.splits)

lemma kept_Get: "kept s (state_of (Get key s))"
proof -
  obtain r s1 where c: "CheckWorkerIsStillRunning s = (r, s1)"
    by (cases "CheckWorkerIsStillRunning s")
  have k: "kept s s1" using kept_CheckWorker [of s] c by simp
  have "kept s1 (state_of (Get_disk key s1))"
    using kept_Get_wait [of s1 key]
    by (simp add: kept_def Get_disk_def Get_read_def split: sum.splits option.splits)
  with k have "kept s (state_of (Get_disk key s1))" by (rule kept_trans)
  with c k show ?thesis
    by (cases r) (simp_all add: Get_def)
qed

lemma kept_resume: "kept s (state_of (resume pc s))"
  by (cases pc) (simp_all add: resume_def kept_StoreInMemory_wait kept_StoreOnDisk_wait kept_Get_wait)

lemma kept_after_StoreOnDisk: "kept (state_of out) (after_StoreOnDisk key out)"
  by (cases out) (auto simp: after_StoreOnDisk_def kept_def worker_exit_def split: caller_pc.splits)

lemma kept_CopyQueueToDisk_step:
  assumes "CopyQueueToDisk_step s = Some s'"
  shows "kept s s'"
proof (cases "worker_at s")
  case WaitingForWork
  let ?i = "FindOldestInMemoryOnly s"
  let ?s1 = "s\<lparr>memory_store := (memory_store s)
                \<lparr>index := (index (memory_store s))
                   [?i := (index (memory_store s) ! ?i)\<lparr>also_on_disk := kStarted\<rparr>]\<rparr>\<rparr>"
  let ?out = "StoreOnDisk (m_key (index (memory_store s) ! ?i))
                (m_value (index (memory_store s) ! ?i)) ?s1"
  have "kept s ?s1" by (simp add: kept_def)
  moreover have "kept ?s1 (state_of ?out)" by (rule kept_StoreOnDisk)
  moreover have "kept (state_of ?out) (after_StoreOnDisk (m_key (index (memory_store s) ! ?i)) ?out)"
    by (rule kept_after_StoreOnDisk)
  ultimately have "kept s (after_StoreOnDisk (m_key (index (memory_store s) ! ?i)) ?out)"
    by (blast intro: kept_trans)
  with assms WaitingForWork show ?thesis
    by (auto simp: CopyQueueToDisk_step_def worker_exit_def kept_def split: if_splits)
next
  case (WaitingForDiskSpace key v)
  have "kept s (state_of (StoreOnDisk_wait key v s))" by (rule kept_StoreOnDisk_wait)
  moreover have "kept (state_of (StoreOnDisk_wait key v s))
      (after_StoreOnDisk key (StoreOnDisk_wait key v s))"
    by (rule kept_after_StoreOnDisk)
  ultimately have "kept s (after_StoreOnDisk key (StoreOnDisk_wait key v s))"
    by (rule kept_trans)
  with assms WaitingForDiskSpace show ?thesis
    by (simp add: CopyQueueToDisk_step_def)
next
  case (AboutToMark key)
  with assms show ?thesis
    by (auto simp: CopyQueueToDisk_step_def kept_def)
next
  case Finished
  with assms show ?thesis by (simp add: CopyQueueToDisk_step_def)
next
  case Spinning
  with assms show ?thesis by (simp add: CopyQueueToDisk_step_def)
qed


lemma buffer_settle: "buffer (settle tid out sys) = state_of out"
  by (cases out) (simp_all add: settle_def)











subsection \<open>A value larger than the disk maximum\<close>

text \<open>A buffer reached by a schedule from a new buffer is reachable; the example with key
  \<open>1\<close> on disk and key \<open>2\<close> in memory is.\<close>

lemma Init_fresh:
  "Init m d p dir False usable_directory
     = (if d < m then Inl invalid_parameter else Inr (fresh m d p dir))"
  by (simp add: Init_def usable_directory_def fresh_def WriteFile_def remove_path_def)

lemma reachable_after:
  assumes "m \<le> d" and "run acts (start (fresh m d p dir)) = Some sys"
  shows "reachable (buffer sys)"
  unfolding reachable_def using assms Init_fresh [of m d p dir]
  by (metis linorder_not_le)






subsection \<open>Reclaiming memory\<close>

lemma erase_find_if_Cons:
  "erase (x # xs) (find_if P (x # xs)) = (if P x then xs else x # erase xs (find_if P xs))"
  by (simp add: erase_def)

lemma erase_first_completed:
  "erase xs (find_if (\<lambda>key_value. also_on_disk key_value = kCompleted) xs)
     = evict_oldest_completed xs"
proof (induction xs)
  case Nil
  show ?case by (simp add: erase_def)
next
  case (Cons x xs)
  then show ?case by (simp only: erase_find_if_Cons evict_oldest_completed.simps)
qed

lemma evict_keeps_others:
  "filter (\<lambda>e. also_on_disk e \<noteq> kCompleted) (evict_oldest_completed xs)
     = filter (\<lambda>e. also_on_disk e \<noteq> kCompleted) xs"
  by (induction xs) auto

lemma evict_removes_one:
  "find_if (\<lambda>e. also_on_disk e = kCompleted) xs \<noteq> length xs \<Longrightarrow>
   Suc (length (filter (\<lambda>e. also_on_disk e = kCompleted) (evict_oldest_completed xs)))
     = length (filter (\<lambda>e. also_on_disk e = kCompleted) xs)"
  by (induction xs) (auto split: if_splits)

lemma reclaimed_refl: "reclaimed xs xs"
  unfolding reclaimed_def by (auto intro: exI [of _ 0])

lemma reclaimed_step:
  assumes found: "find_if (\<lambda>e. also_on_disk e = kCompleted) xs \<noteq> length xs"
    and rest: "reclaimed (evict_oldest_completed xs) ys"
  shows "reclaimed xs ys"
proof -
  from rest obtain n where n: "ys = (evict_oldest_completed ^^ n) (evict_oldest_completed xs)"
    and le: "n \<le> length (filter (\<lambda>e. also_on_disk e = kCompleted) (evict_oldest_completed xs))"
    and keep: "filter (\<lambda>e. also_on_disk e \<noteq> kCompleted) ys
         = filter (\<lambda>e. also_on_disk e \<noteq> kCompleted) (evict_oldest_completed xs)"
    unfolding reclaimed_def by blast
  from n have "ys = (evict_oldest_completed ^^ Suc n) xs"
    by (simp only: funpow_Suc_right o_apply)
  moreover from le evict_removes_one [OF found]
  have "Suc n \<le> length (filter (\<lambda>e. also_on_disk e = kCompleted) xs)"
    by simp
  moreover from keep have "filter (\<lambda>e. also_on_disk e \<noteq> kCompleted) ys
         = filter (\<lambda>e. also_on_disk e \<noteq> kCompleted) xs"
    by (simp add: evict_keeps_others)
  ultimately show ?thesis
    unfolding reclaimed_def by blast
qed

lemma WaitForSpaceInMemory_reclaims:
  "reclaimed (index (memory_store s))
     (index (memory_store (memory_wait_state (WaitForSpaceInMemory woken required_space s))))"
proof (induction woken required_space s rule: WaitForSpaceInMemory.induct)
  case (1 woken required_space s)
  let ?s1 = "s\<lparr>memory_store := (memory_store s)
               \<lparr>current := current (memory_store s)
                   - size_of (m_value (index (memory_store s) ! FindCompletedInMemory s)),
                index := erase (index (memory_store s)) (FindCompletedInMemory s)\<rparr>\<rparr>"
  have s1: "index (memory_store ?s1) = evict_oldest_completed (index (memory_store s))"
    by (simp add: FindCompletedInMemory_def erase_first_completed)
  show ?case
  proof (cases "\<not> (\<not> woken \<and> HasSpace (memory_store s) required_space)
      \<and> (FindCompletedInMemory s \<noteq> memory_end s
           \<or> HasSpace (memory_store s) required_space \<or> \<not> running s)
      \<and> running s")
    case looping: True
    show ?thesis
    proof (cases "FindCompletedInMemory s \<noteq> memory_end s")
      case True
      with looping "1.IH"(1)
      have "reclaimed (index (memory_store ?s1))
          (index (memory_store (memory_wait_state (WaitForSpaceInMemory False required_space ?s1))))"
        by simp
      with True
      have "reclaimed (index (memory_store s))
          (index (memory_store (memory_wait_state (WaitForSpaceInMemory False required_space ?s1))))"
        unfolding s1 by (auto simp: FindCompletedInMemory_def memory_end_def intro: reclaimed_step)
      with looping True show ?thesis
        by (subst WaitForSpaceInMemory.simps) (simp add: reclaimed_refl)
    next
      case False
      with looping "1.IH"(2)
      have "reclaimed (index (memory_store s))
          (index (memory_store (memory_wait_state (WaitForSpaceInMemory False required_space s))))"
        by auto
      with looping False show ?thesis
        by (subst WaitForSpaceInMemory.simps) (simp add: reclaimed_refl)
    qed
  next
    case False
    then show ?thesis
      by (subst WaitForSpaceInMemory.simps) (auto simp: reclaimed_refl)
  qed
qed

lemma memory_RemoveFile: "RemoveFile key want_value s = Some (v, s1) \<Longrightarrow> memory_store s1 = memory_store s"
  by (auto simp: RemoveFile_def split: option.splits)

lemma memory_WaitForSpaceOnDisk:
  "memory_store (disk_wait_state (WaitForSpaceOnDisk key required_space s)) = memory_store s"
proof (induction key required_space s rule: WaitForSpaceOnDisk.induct)
  case (1 key required_space s)
  show ?case
  proof (cases "RemoveFile (d_key (index (disk_store s) ! FindOldestOnDisk s)) True s")
    case None
    then show ?thesis
      by (subst WaitForSpaceOnDisk.simps) simp
  next
    case (Some a)
    obtain v s1 where a: "a = (v, s1)" by (cases a)
    have k1: "memory_store s1 = memory_store s" using Some a memory_RemoveFile by simp
    let ?s2 = "s1\<lparr>disk_store := (disk_store s1)
                   \<lparr>index := erase (index (disk_store s1)) (FindOldestOnDisk s)\<rparr>,
                 popped := popped s1 @ [(d_key (index (disk_store s) ! FindOldestOnDisk s), v)]\<rparr>"
    show ?thesis
    proof (cases "\<not> HasSpace (disk_store s) required_space \<and> running s
        \<and> FindDisk s key \<noteq> disk_end s
        \<and> d_state (index (disk_store s) ! FindDisk s key) \<noteq> kCancelled
        \<and> kPopFunctor s \<and> d_state (index (disk_store s) ! FindOldestOnDisk s) = kCompleted")
      case True
      then have c: "\<not> HasSpace (disk_store s) required_space \<and> running s"
        "FindDisk s key \<noteq> disk_end s"
        "d_state (index (disk_store s) ! FindDisk s key) \<noteq> kCancelled"
        "kPopFunctor s" "d_state (index (disk_store s) ! FindOldestOnDisk s) = kCompleted"
        by simp_all
      have "memory_store (disk_wait_state (WaitForSpaceOnDisk key required_space ?s2))
          = memory_store ?s2"
        by (rule "1.IH" [OF c Some a [symmetric]])
      with k1 c Some show ?thesis
        by (subst WaitForSpaceOnDisk.simps) (simp add: a)
    next
      case False
      then show ?thesis
        by (subst WaitForSpaceOnDisk.simps) auto
    qed
  qed
qed

lemma memory_StoreOnDisk: "memory_store (state_of (StoreOnDisk key v s)) = memory_store s"
proof -
  have w: "memory_store (state_of (StoreOnDisk_wait key v s')) = memory_store s'" for s'
    using memory_WaitForSpaceOnDisk [of key "size_of v" s']
    by (cases "WaitForSpaceOnDisk key (size_of v) s'")
       (auto simp: StoreOnDisk_wait_def StoreOnDisk_write_def StopRunning_def
             split: option.splits)
  show ?thesis
    by (simp add: StoreOnDisk_def StopRunning_def w)
qed

lemma set_erase_others:
  assumes "x \<in> set xs" and "x \<noteq> xs ! i"
  shows "x \<in> set (erase xs i)"
proof -
  from assms(1) obtain j where j: "j < length xs" "xs ! j = x"
    by (auto simp: in_set_conv_nth)
  with assms(2) have "j \<noteq> i" by auto
  then consider "j < i" | "i < j" by arith
  then show ?thesis
  proof cases
    case 1
    with j have "x \<in> set (take i xs)"
      by (auto simp: in_set_conv_nth intro!: exI [of _ j])
    then show ?thesis by (simp add: erase_def)
  next
    case 2
    with j have "j - Suc i < length (drop (Suc i) xs)" "drop (Suc i) xs ! (j - Suc i) = x"
      by auto
    then have "x \<in> set (drop (Suc i) xs)"
      by (metis nth_mem)
    then show ?thesis by (simp add: erase_def)
  qed
qed

lemma Delete_keeps_other_keys:
  assumes "e \<in> set (index (memory_store s))" and "m_key e \<noteq> key"
  shows "e \<in> set (index (memory_store (snd (Delete key s))))"
proof -
  obtain r s1 where c: "CheckWorkerIsStillRunning s = (r, s1)"
    by (cases "CheckWorkerIsStillRunning s")
  have 1: "memory_store s1 = memory_store s"
    using CheckWorker_stores(1) [of s] c by simp
  have 2: "e \<in> set (index (memory_store (snd (DeleteFromMemory key s1))))"
  proof (cases "FindMemory s1 key \<noteq> memory_end s1")
    case True
    then have "m_key (index (memory_store s1) ! FindMemory s1 key) = key"
      using find_if_found [of "\<lambda>key_value. m_key key_value = key" "index (memory_store s1)"]
      by (simp add: FindMemory_def memory_end_def)
    with assms(2) have "e \<noteq> index (memory_store s1) ! FindMemory s1 key" by auto
    with assms(1) 1 True show ?thesis
      by (simp add: DeleteFromMemory_def set_erase_others)
  next
    case False
    with assms(1) 1 show ?thesis by (simp add: DeleteFromMemory_def)
  qed
  have 3: "memory_store (snd (DeleteFromDisk key s')) = memory_store s'" for s'
    by (auto simp: DeleteFromDisk_def RemoveFile_def split: option.splits)
  from 1 2 3 c assms(1) show ?thesis
    by (cases r; cases "DeleteFromMemory key s1") (auto simp: Delete_def)
qed

lemma StoreInMemory_wait_keeps:
  assumes "e \<in> set (index (memory_store s))" and "also_on_disk e \<noteq> kCompleted"
  shows "e \<in> set (index (memory_store (state_of (StoreInMemory_wait woken key v s))))"
proof -
  let ?w = "WaitForSpaceInMemory woken (size_of v) s"
  have "reclaimed (index (memory_store s)) (index (memory_store (memory_wait_state ?w)))"
    by (rule WaitForSpaceInMemory_reclaims)
  then have "filter (\<lambda>e. also_on_disk e \<noteq> kCompleted) (index (memory_store (memory_wait_state ?w)))
      = filter (\<lambda>e. also_on_disk e \<noteq> kCompleted) (index (memory_store s))"
    by (simp add: reclaimed_def)
  with assms have "e \<in> set (filter (\<lambda>e. also_on_disk e \<noteq> kCompleted)
      (index (memory_store (memory_wait_state ?w))))"
    by simp
  then have e: "e \<in> set (index (memory_store (memory_wait_state ?w)))"
    by simp
  show ?thesis
  proof (cases ?w)
    case (SpaceWaitOver s1)
    with e show ?thesis
      by (auto simp: StoreInMemory_wait_def StoreInMemory_insert_def split: worker_future.splits)
  next
    case (SpaceWaitBlocked s1)
    with e show ?thesis by (simp add: StoreInMemory_wait_def)
  qed
qed

text \<open>Claim C7.  Where \<^verbatim>\<open>Store\<close> reclaims memory (the loop of \<^verbatim>\<open>WaitForSpaceInMemory\<close>,
  entered at its guard or resumed in its wait), each removal erases the front-most element
  whose state is \<^verbatim>\<open>kCompleted\<close>: the index afterwards is the index before with the oldest
  completed element evicted \<open>n\<close> times, \<open>n\<close> at most the number of completed elements, and
  the elements in any other state are all still there.  Accordingly a \<^verbatim>\<open>Store\<close>, whether it
  returns at once or is resumed from the wait, removes no element that is \<^verbatim>\<open>kNotStarted\<close> or
  \<^verbatim>\<open>kStarted\<close> (the element of the stored key itself is replaced by the speculative
  \<^verbatim>\<open>Delete\<close>, which is not a reclaim).\<close>

theorem memory_reclaimed_from_oldest_completed:
  "erase (index (memory_store s)) (FindCompletedInMemory s)
     = evict_oldest_completed (index (memory_store s))
   \<and> (\<exists>n. index (memory_store (memory_wait_state (WaitForSpaceInMemory woken required_space s)))
            = (evict_oldest_completed ^^ n) (index (memory_store s))
          \<and> n \<le> length (filter (\<lambda>e. also_on_disk e = kCompleted) (index (memory_store s))))
   \<and> filter (\<lambda>e. also_on_disk e \<noteq> kCompleted)
         (index (memory_store (memory_wait_state (WaitForSpaceInMemory woken required_space s))))
       = filter (\<lambda>e. also_on_disk e \<noteq> kCompleted) (index (memory_store s))
   \<and> (\<forall>e \<in> set (index (memory_store s)).
         also_on_disk e \<noteq> kCompleted \<and> m_key e \<noteq> key \<longrightarrow>
           e \<in> set (index (memory_store (state_of (Store key v s))))
           \<and> e \<in> set (index (memory_store (state_of (resume (InWaitForSpaceInMemory key v) s)))))"
proof -
  have keep: "e \<in> set (index (memory_store (state_of (Store key v s))))"
    if e: "e \<in> set (index (memory_store s))" "also_on_disk e \<noteq> kCompleted" "m_key e \<noteq> key"
    for e
  proof -
    let ?s0 = "snd (Delete key s)"
    obtain r s1 where c: "CheckWorkerIsStillRunning ?s0 = (r, s1)"
      by (cases "CheckWorkerIsStillRunning ?s0")
    have m: "memory_store s1 = memory_store ?s0"
      using CheckWorker_stores(1) [of ?s0] c by simp
    from e have "e \<in> set (index (memory_store ?s0))"
      by (simp add: Delete_keeps_other_keys)
    with m have e1: "e \<in> set (index (memory_store s1))" by simp
    show ?thesis
    proof (cases r)
      case (Inl err)
      with c e1 show ?thesis by (simp add: Store_def)
    next
      case (Inr u)
      with c e1 e(2) show ?thesis
        by (auto simp: Store_def StoreInMemory_def memory_StoreOnDisk StoreInMemory_wait_keeps)
    qed
  qed
  have "reclaimed (index (memory_store s))
     (index (memory_store (memory_wait_state (WaitForSpaceInMemory woken required_space s))))"
    by (rule WaitForSpaceInMemory_reclaims)
  with keep show ?thesis
    by (simp add: reclaimed_def FindCompletedInMemory_def erase_first_completed
          resume_def StoreInMemory_wait_keeps)
qed

theorem memory_reclaimed_from_oldest_completed_witness:
  "index (memory_store (memory_wait_state (WaitForSpaceInMemory False 1 reclaim_example)))
     = [\<lparr>m_key = ''1'', m_value = ''a'', also_on_disk = kStarted\<rparr>,
        \<lparr>m_key = ''3'', m_value = ''c'', also_on_disk = kNotStarted\<rparr>,
        \<lparr>m_key = ''4'', m_value = ''d'', also_on_disk = kCompleted\<rparr>]
   \<and> \<lparr>m_key = ''1'', m_value = ''a'', also_on_disk = kStarted\<rparr>
        \<in> set (index (memory_store reclaim_example))
   \<and> \<lparr>m_key = ''1'', m_value = ''a'', also_on_disk = kStarted\<rparr>
        \<in> set (index (memory_store (state_of (Store ''5'' ''e'' reclaim_example))))"
  using memory_reclaimed_from_oldest_completed [of reclaim_example False 1 "''5''" "''e''"]
  by (simp add: reclaim_example_def buffer_defs)

subsection \<open>The speculative delete of Store\<close>



subsection \<open>Invariants of the reachable buffers\<close>

text \<open>In every reachable buffer the memory maximum is at most the disk maximum, and the memory
  usage is the sum of the sizes of the values in the memory index (as 64-bit numbers).\<close>

lemma exec_cases:
  assumes "exec a sys = Some sys'"
  obtains (Call) op where "buffer sys' = state_of (call op (buffer sys))"
    | (Wake) pc where "buffer sys' = state_of (resume pc (buffer sys))"
    | (Worker) "CopyQueueToDisk_step (buffer sys) = Some (buffer sys')"
    | (RemoveRoot) "buffer sys' = (buffer sys)\<lparr>fs := remove_all_root (fs (buffer sys))\<rparr>"
proof (cases a)
  case (Call tid op)
  with assms have "buffer sys' = state_of (call op (buffer sys))"
    by (auto simp: exec_def buffer_settle split: if_splits option.splits)
  then show ?thesis by (rule that(1))
next
  case (Wake tid)
  with assms obtain pc where "buffer sys' = state_of (resume pc (buffer sys))"
    by (auto simp: exec_def buffer_settle split: if_splits option.splits)
  then show ?thesis by (rule that(2))
next
  case Worker
  with assms have "CopyQueueToDisk_step (buffer sys) = Some (buffer sys')"
    by (auto simp: exec_def split: if_splits option.splits)
  then show ?thesis by (rule that(3))
next
  case RemoveRoot
  with assms have "buffer sys' = (buffer sys)\<lparr>fs := remove_all_root (fs (buffer sys))\<rparr>"
    by (auto simp: exec_def split: if_splits)
  then show ?thesis by (rule that(4))
qed

lemma run_invariant:
  assumes step: "\<And>a sys sys'. P (buffer sys) \<Longrightarrow> exec a sys = Some sys' \<Longrightarrow> P (buffer sys')"
  shows "P (buffer sys) \<Longrightarrow> run acts sys = Some sys' \<Longrightarrow> P (buffer sys')"
proof (induction acts arbitrary: sys)
  case Nil
  then show ?case by simp
next
  case (Cons a acts)
  from Cons.prems(2) obtain sys1 where 1: "exec a sys = Some sys1" and 2: "run acts sys1 = Some sys'"
    by (auto split: option.splits)
  from step [OF Cons.prems(1) 1] have "P (buffer sys1)" .
  then show ?case using 2 by (rule Cons.IH)
qed

lemma kept_call:
  "kept s (state_of (call op s))
   \<or> (\<exists>m. op = OpSetMaxMemoryUsage m \<and> state_of (call op s) = snd (SetMaxMemoryUsage m s))
   \<or> (\<exists>m. op = OpSetMaxDiskUsage m \<and> state_of (call op s) = snd (SetMaxDiskUsage m s))"
proof (cases op)
  case (OpStore key v)
  then show ?thesis using kept_Store [of s key v] by (simp add: call_def)
next
  case (OpGet key)
  then show ?thesis using kept_Get [of s key] by (simp add: call_def)
next
  case (OpDelete key)
  then show ?thesis using kept_Delete [of s key]
    by (cases "Delete key s") (auto simp: call_def of_result_def split: sum.splits)
next
  case (OpSetMaxMemoryUsage m)
  then show ?thesis
    by (cases "SetMaxMemoryUsage m s") (auto simp: call_def of_result_def split: sum.splits)
next
  case (OpSetMaxDiskUsage m)
  then show ?thesis
    by (cases "SetMaxDiskUsage m s") (auto simp: call_def of_result_def split: sum.splits)
qed

lemma exec_maxima:
  assumes "max_usage (memory_store (buffer sys)) \<le> max_usage (disk_store (buffer sys))"
    and "exec a sys = Some sys'"
  shows "max_usage (memory_store (buffer sys')) \<le> max_usage (disk_store (buffer sys'))"
  using assms(2)
proof (cases rule: exec_cases)
  case (Call op)
  with assms(1) kept_call [of "buffer sys" op] show ?thesis
    by (auto simp: kept_def SetMaxMemoryUsage_def SetMaxDiskUsage_def split: if_splits)
next
  case (Wake pc)
  with assms(1) kept_resume [of "buffer sys" pc] show ?thesis
    by (simp add: kept_def)
next
  case Worker
  with assms(1) kept_CopyQueueToDisk_step show ?thesis
    by (fastforce simp: kept_def)
next
  case RemoveRoot
  with assms(1) show ?thesis by simp
qed

lemma reachable_maxima:
  assumes "reachable s"
  shows "max_usage (memory_store s) \<le> max_usage (disk_store s)"
proof -
  from assms obtain m d p dir rr fsys s0 acts sys where
    init: "Init m d p dir rr fsys = Inr s0" and r: "run acts (start s0) = Some sys"
    and s: "buffer sys = s"
    unfolding reachable_def by blast
  from init have "max_usage (memory_store s0) \<le> max_usage (disk_store s0)"
    by (auto simp: Init_def split: if_splits option.splits)
  then have "max_usage (memory_store (buffer (start s0))) \<le> max_usage (disk_store (buffer (start s0)))"
    by (simp add: start_def)
  from run_invariant [where P = "\<lambda>s. max_usage (memory_store s) \<le> max_usage (disk_store s)",
      OF exec_maxima this r] s
  show ?thesis by simp
qed

lemma sum_list_erase:
  assumes "i < length xs"
  shows "sum_list (map f (erase xs i)) + f (xs ! i) = (sum_list (map f xs) :: nat)"
proof -
  from assms have "xs = take i xs @ xs ! i # drop (Suc i) xs"
    by (rule id_take_nth_drop)
  then have "sum_list (map f xs) = sum_list (map f (take i xs @ xs ! i # drop (Suc i) xs))"
    by simp
  then show ?thesis by (simp add: erase_def)
qed

lemma accounted_erase:
  assumes "i < length (index (memory_store s))" and "memory_accounted s"
  shows "memory_accounted
     (s\<lparr>memory_store := (memory_store s)
          \<lparr>current := current (memory_store s) - size_of (m_value (index (memory_store s) ! i)),
           index := erase (index (memory_store s)) i\<rparr>\<rparr>)"
proof -
  have "(of_nat (sum_list (map (\<lambda>e. length (m_value e)) (erase (index (memory_store s)) i))
            + length (m_value (index (memory_store s) ! i))) :: u64)
      = of_nat (sum_list (map (\<lambda>e. length (m_value e)) (index (memory_store s))))"
    using sum_list_erase [OF assms(1), of "\<lambda>e. length (m_value e)"] by simp
  then have "(of_nat (sum_list (map (\<lambda>e. length (m_value e)) (erase (index (memory_store s)) i))) :: u64)
      = of_nat (sum_list (map (\<lambda>e. length (m_value e)) (index (memory_store s))))
        - of_nat (length (m_value (index (memory_store s) ! i)))"
    by (simp add: algebra_simps)
  with assms(2) show ?thesis
    by (simp add: memory_accounted_def size_of_def)
qed

lemma accounted_memory_store:
  "memory_store s' = memory_store s \<Longrightarrow> memory_accounted s \<Longrightarrow> memory_accounted s'"
  by (simp add: memory_accounted_def)

lemma accounted_mark:
  assumes "memory_accounted s"
  shows "memory_accounted
     (s\<lparr>memory_store := (memory_store s)
          \<lparr>index := (index (memory_store s))
             [i := (index (memory_store s) ! i)\<lparr>also_on_disk := st\<rparr>]\<rparr>\<rparr>)"
proof -
  have "map (\<lambda>e. length (m_value e))
          ((index (memory_store s)) [i := (index (memory_store s) ! i)\<lparr>also_on_disk := st\<rparr>])
        = map (\<lambda>e. length (m_value e)) (index (memory_store s))"
  proof (cases "i < length (index (memory_store s))")
    case True
    then have "(map (\<lambda>e. length (m_value e)) (index (memory_store s))) ! i
        = length (m_value (index (memory_store s) ! i))"
      by simp
    then have "(map (\<lambda>e. length (m_value e)) (index (memory_store s)))
          [i := length (m_value (index (memory_store s) ! i))]
        = map (\<lambda>e. length (m_value e)) (index (memory_store s))"
      by (metis list_update_id)
    then show ?thesis by (simp add: map_update)
  next
    case False
    then have "length (index (memory_store s)) \<le> i" by simp
    then show ?thesis by (simp only: list_update_beyond)
  qed
  with assms show ?thesis by (simp add: memory_accounted_def)
qed

lemma FindMemory_less:
  "FindMemory s key \<noteq> memory_end s \<Longrightarrow> FindMemory s key < length (index (memory_store s))"
  using find_if_le [of "\<lambda>key_value. m_key key_value = key" "index (memory_store s)"]
  by (simp add: FindMemory_def memory_end_def)

lemma FindCompletedInMemory_less:
  "FindCompletedInMemory s \<noteq> memory_end s \<Longrightarrow>
     FindCompletedInMemory s < length (index (memory_store s))"
  using find_if_le [of "\<lambda>key_value. also_on_disk key_value = kCompleted" "index (memory_store s)"]
  by (simp add: FindCompletedInMemory_def memory_end_def)

lemma accounted_DeleteFromMemory:
  "memory_accounted s \<Longrightarrow> memory_accounted (snd (DeleteFromMemory key s))"
  by (simp add: DeleteFromMemory_def accounted_erase FindMemory_less)

lemma memory_DeleteFromDisk: "memory_store (snd (DeleteFromDisk key s)) = memory_store s"
  by (auto simp: DeleteFromDisk_def RemoveFile_def split: option.splits)

lemma accounted_Delete: "memory_accounted s \<Longrightarrow> memory_accounted (snd (Delete key s))"
proof -
  assume a: "memory_accounted s"
  obtain r s1 where c: "CheckWorkerIsStillRunning s = (r, s1)"
    by (cases "CheckWorkerIsStillRunning s")
  obtain st s2 where m: "DeleteFromMemory key s1 = (st, s2)"
    by (cases "DeleteFromMemory key s1")
  have 1: "memory_accounted s1"
    using CheckWorker_stores(1) [of s] c a by (auto intro: accounted_memory_store)
  then have 2: "memory_accounted s2"
    using accounted_DeleteFromMemory [of s1 key] m by simp
  then have 3: "memory_accounted (snd (DeleteFromDisk key s2))"
    using memory_DeleteFromDisk by (rule accounted_memory_store [rotated])
  from 1 2 3 c m show ?thesis
    by (cases r) (auto simp: Delete_def)
qed

lemma accounted_WaitForSpaceInMemory:
  "memory_accounted s \<Longrightarrow>
     memory_accounted (memory_wait_state (WaitForSpaceInMemory woken required_space s))"
proof (induction woken required_space s rule: WaitForSpaceInMemory.induct)
  case (1 woken required_space s)
  let ?s1 = "s\<lparr>memory_store := (memory_store s)
               \<lparr>current := current (memory_store s)
                   - size_of (m_value (index (memory_store s) ! FindCompletedInMemory s)),
                index := erase (index (memory_store s)) (FindCompletedInMemory s)\<rparr>\<rparr>"
  show ?case
  proof (cases "\<not> (\<not> woken \<and> HasSpace (memory_store s) required_space)
      \<and> (FindCompletedInMemory s \<noteq> memory_end s
           \<or> HasSpace (memory_store s) required_space \<or> \<not> running s)
      \<and> running s")
    case looping: True
    show ?thesis
    proof (cases "FindCompletedInMemory s \<noteq> memory_end s")
      case True
      then have "memory_accounted ?s1"
        using "1.prems" by (simp add: accounted_erase FindCompletedInMemory_less)
      with looping True "1.IH"(1)
      have "memory_accounted (memory_wait_state (WaitForSpaceInMemory False required_space ?s1))"
        by simp
      with looping True show ?thesis
        by (subst WaitForSpaceInMemory.simps) (simp add: "1.prems")
    next
      case False
      with looping "1.IH"(2) "1.prems"
      have "memory_accounted (memory_wait_state (WaitForSpaceInMemory False required_space s))"
        by auto
      with looping False show ?thesis
        by (subst WaitForSpaceInMemory.simps) (simp add: "1.prems")
    qed
  next
    case False
    then show ?thesis
      using "1.prems" by (subst WaitForSpaceInMemory.simps) auto
  qed
qed

lemma accounted_StoreInMemory_insert:
  "memory_accounted s \<Longrightarrow> memory_accounted (state_of (StoreInMemory_insert key v s))"
  by (auto simp: memory_accounted_def StoreInMemory_insert_def size_of_def
           split: worker_future.splits)

lemma accounted_StoreInMemory_wait:
  assumes "memory_accounted s"
  shows "memory_accounted (state_of (StoreInMemory_wait woken key v s))"
proof -
  have w: "memory_accounted (memory_wait_state (WaitForSpaceInMemory woken (size_of v) s))"
    using assms by (rule accounted_WaitForSpaceInMemory)
  show ?thesis
  proof (cases "WaitForSpaceInMemory woken (size_of v) s")
    case (SpaceWaitOver s1)
    with w show ?thesis
      by (simp add: StoreInMemory_wait_def accounted_StoreInMemory_insert)
  next
    case (SpaceWaitBlocked s1)
    with w show ?thesis by (simp add: StoreInMemory_wait_def)
  qed
qed

lemma memory_StoreOnDisk_wait:
  "memory_store (state_of (StoreOnDisk_wait key v s)) = memory_store s"
  using memory_WaitForSpaceOnDisk [of key "size_of v" s]
  by (cases "WaitForSpaceOnDisk key (size_of v) s")
     (auto simp: StoreOnDisk_wait_def StoreOnDisk_write_def StopRunning_def
           split: option.splits)

lemma accounted_Store:
  assumes "memory_accounted s"
  shows "memory_accounted (state_of (Store key v s))"
proof -
  let ?s0 = "snd (Delete key s)"
  obtain r s1 where c: "CheckWorkerIsStillRunning ?s0 = (r, s1)"
    by (cases "CheckWorkerIsStillRunning ?s0")
  have "memory_accounted ?s0" using assms by (rule accounted_Delete)
  then have 1: "memory_accounted s1"
    using CheckWorker_stores(1) [of ?s0] c by (auto intro: accounted_memory_store)
  then have 2: "memory_accounted (state_of (StoreOnDisk key v s1))"
    using memory_StoreOnDisk by (rule accounted_memory_store [rotated])
  from 1 have 3: "memory_accounted (state_of (StoreInMemory_wait False key v s1))"
    by (rule accounted_StoreInMemory_wait)
  from 1 2 3 c show ?thesis
    by (cases r) (auto simp: Store_def StoreInMemory_def)
qed

lemma memory_Get_wait: "memory_store (state_of (Get_wait key s)) = memory_store s"
  by (simp add: Get_wait_def Get_read_def split: sum.splits option.splits)

lemma memory_Get: "memory_store (state_of (Get key s)) = memory_store s"
proof -
  obtain r s1 where c: "CheckWorkerIsStillRunning s = (r, s1)"
    by (cases "CheckWorkerIsStillRunning s")
  have 1: "memory_store s1 = memory_store s"
    using CheckWorker_stores(1) [of s] c by simp
  have "memory_store (state_of (Get_disk key s1)) = memory_store s1"
    using memory_Get_wait [of key s1]
    by (simp add: Get_disk_def Get_read_def split: sum.splits option.splits)
  with 1 c show ?thesis
    by (cases r) (simp_all add: Get_def)
qed

lemma accounted_call:
  assumes "memory_accounted s"
  shows "memory_accounted (state_of (call op s))"
proof (cases op)
  case (OpStore key v)
  with assms show ?thesis by (simp add: call_def accounted_Store)
next
  case (OpGet key)
  with assms memory_Get [of key s] show ?thesis
    by (auto simp: call_def intro: accounted_memory_store)
next
  case (OpDelete key)
  with assms accounted_Delete [of s key] show ?thesis
    by (cases "Delete key s") (auto simp: call_def of_result_def split: sum.splits)
next
  case (OpSetMaxMemoryUsage m)
  with assms show ?thesis
    by (auto simp: call_def of_result_def SetMaxMemoryUsage_def memory_accounted_def)
next
  case (OpSetMaxDiskUsage m)
  with assms show ?thesis
    by (auto simp: call_def of_result_def SetMaxDiskUsage_def memory_accounted_def)
qed

lemma accounted_resume:
  assumes "memory_accounted s"
  shows "memory_accounted (state_of (resume pc s))"
proof (cases pc)
  case (InWaitForSpaceInMemory key v)
  with assms show ?thesis by (simp add: resume_def accounted_StoreInMemory_wait)
next
  case (InWaitForSpaceOnDisk key v)
  with assms memory_StoreOnDisk_wait [of key v s] show ?thesis
    by (auto simp: resume_def intro: accounted_memory_store)
next
  case (InGetWait key)
  with assms memory_Get_wait [of key s] show ?thesis
    by (auto simp: resume_def intro: accounted_memory_store)
qed

lemma memory_after_StoreOnDisk:
  "memory_store (after_StoreOnDisk key out) = memory_store (state_of out)"
  by (cases out) (auto simp: after_StoreOnDisk_def worker_exit_def split: caller_pc.splits)

lemma accounted_CopyQueueToDisk_step:
  assumes "memory_accounted s" and "CopyQueueToDisk_step s = Some s'"
  shows "memory_accounted s'"
proof (cases "worker_at s")
  case WaitingForWork
  let ?i = "FindOldestInMemoryOnly s"
  let ?s1 = "s\<lparr>memory_store := (memory_store s)
                \<lparr>index := (index (memory_store s))
                   [?i := (index (memory_store s) ! ?i)\<lparr>also_on_disk := kStarted\<rparr>]\<rparr>\<rparr>"
  let ?out = "StoreOnDisk (m_key (index (memory_store s) ! ?i))
                (m_value (index (memory_store s) ! ?i)) ?s1"
  have "memory_accounted ?s1" using assms(1) by (rule accounted_mark)
  then have "memory_accounted (after_StoreOnDisk (m_key (index (memory_store s) ! ?i)) ?out)"
    by (rule accounted_memory_store [rotated])
       (simp only: memory_after_StoreOnDisk memory_StoreOnDisk)
  with assms WaitingForWork show ?thesis
    by (auto simp: CopyQueueToDisk_step_def worker_exit_def memory_accounted_def split: if_splits)
next
  case (WaitingForDiskSpace key v)
  have "memory_store (after_StoreOnDisk key (StoreOnDisk_wait key v s)) = memory_store s"
    by (simp only: memory_after_StoreOnDisk memory_StoreOnDisk_wait)
  with assms WaitingForDiskSpace show ?thesis
    by (auto simp: CopyQueueToDisk_step_def intro: accounted_memory_store)
next
  case (AboutToMark key)
  have "memory_accounted
     (s\<lparr>memory_store := (memory_store s)
          \<lparr>index := (index (memory_store s))
             [FindMemory s key := (index (memory_store s) ! FindMemory s key)
                \<lparr>also_on_disk := kCompleted\<rparr>]\<rparr>\<rparr>)"
    using assms(1) by (rule accounted_mark)
  with assms AboutToMark show ?thesis
    by (auto simp: CopyQueueToDisk_step_def memory_accounted_def split: if_splits)
next
  case Finished
  with assms show ?thesis by (simp add: CopyQueueToDisk_step_def)
next
  case Spinning
  with assms show ?thesis by (simp add: CopyQueueToDisk_step_def)
qed

lemma exec_memory_accounted:
  assumes "memory_accounted (buffer sys)" and "exec a sys = Some sys'"
  shows "memory_accounted (buffer sys')"
  using assms(2)
proof (cases rule: exec_cases)
  case (Call op)
  with assms(1) show ?thesis by (simp add: accounted_call)
next
  case (Wake pc)
  with assms(1) show ?thesis by (simp add: accounted_resume)
next
  case Worker
  with assms(1) show ?thesis by (rule accounted_CopyQueueToDisk_step)
next
  case RemoveRoot
  with assms(1) show ?thesis by (simp add: memory_accounted_def)
qed

lemma reachable_memory_accounted:
  assumes "reachable s"
  shows "memory_accounted s"
proof -
  from assms obtain m d p dir rr fsys s0 acts sys where
    init: "Init m d p dir rr fsys = Inr s0" and r: "run acts (start s0) = Some sys"
    and s: "buffer sys = s"
    unfolding reachable_def by blast
  from init have "memory_accounted s0"
    by (auto simp: Init_def memory_accounted_def split: if_splits option.splits)
  then have "memory_accounted (buffer (start s0))"
    by (simp add: start_def)
  from run_invariant [where P = memory_accounted, OF exec_memory_accounted this r] s
  show ?thesis by simp
qed

subsection \<open>Storing one key on a new buffer\<close>

text \<open>On a freshly constructed buffer, and whatever the worker does in between, a store of a
  key with a value up to the disk maximum returns, a second store of the key returns and the
  key then reads back as the second value; a delete after the first store returns and the key
  then reads as absent.\<close>

lemma WaitForSpaceInMemory_space:
  "HasSpace (memory_store s) r \<Longrightarrow> WaitForSpaceInMemory False r s = SpaceWaitOver s"
  by (subst WaitForSpaceInMemory.simps) simp

lemma WaitForSpaceOnDisk_space:
  "HasSpace (disk_store s) r \<Longrightarrow> WaitForSpaceOnDisk k r s = DiskWaitOver False s"
  by (subst WaitForSpaceOnDisk.simps) simp

lemma Check_single_key:
  "CheckWorkerIsStillRunning (single_key m d p dir k im od pc)
     = (Inr (), single_key m d p dir k im od pc)"
  by (simp add: single_key_def CheckWorkerIsStillRunning_def)

lemma DeleteFromMemory_vacant:
  "DeleteFromMemory k (single_key m d p dir k None od pc)
     = (kCompleted, single_key m d p dir k None od pc)"
  by (simp add: single_key_def DeleteFromMemory_def FindMemory_def memory_end_def)

lemma DeleteFromMemory_present:
  "DeleteFromMemory k (single_key m d p dir k (Some (v, st)) od pc)
     = (st, single_key m d p dir k None od pc)"
  by (simp add: single_key_def DeleteFromMemory_def FindMemory_def memory_end_def erase_def)

lemma DeleteFromDisk_vacant:
  "DeleteFromDisk k (single_key m d p dir k None None pc)
     = (Inl no_such_element, single_key m d p dir k None None pc)"
  by (simp add: single_key_def DeleteFromDisk_def FindDisk_def disk_end_def)

lemma DeleteFromDisk_present:
  "DeleteFromDisk k (single_key m d p dir k None (Some w) pc)
     = (Inr (), single_key m d p dir k None None pc)"
  by (simp add: single_key_def DeleteFromDisk_def FindDisk_def disk_end_def RemoveFile_def
        file_size_def remove_path_def erase_def size_of_def)

lemma Delete_single_key:
  assumes "stored_pair v' (im, od)"
  shows "snd (Delete k (single_key m d p dir k im od pc)) = single_key m d p dir k None None pc"
  using assms unfolding stored_pair_def
  by (auto simp: Delete_def Check_single_key DeleteFromMemory_vacant DeleteFromMemory_present
        DeleteFromDisk_vacant DeleteFromDisk_present)

lemma Delete_single_key_ok:
  assumes "(im, od) \<in> {(Some (v, kNotStarted), None), (Some (v, kStarted), Some v),
                        (Some (v, kCompleted), Some v), (None, Some v)}"
  shows "Delete k (single_key m d p dir k im od pc)
     = (Inr (), single_key m d p dir k None None pc)"
  using assms
  by (auto simp: Delete_def Check_single_key DeleteFromMemory_vacant DeleteFromMemory_present
        DeleteFromDisk_vacant DeleteFromDisk_present)

lemma StoreInMemory_vacant:
  assumes "size_of v \<le> m"
  shows "StoreInMemory k v (single_key m d p dir k None None pc)
     = NoLock (Returned None (single_key m d p dir k (Some (v, kNotStarted)) None pc))"
proof -
  have "HasSpace (memory_store (single_key m d p dir k None None pc)) (size_of v)"
    by (simp add: single_key_def HasSpace_def)
  then have "WaitForSpaceInMemory False (size_of v) (single_key m d p dir k None None pc)
      = SpaceWaitOver (single_key m d p dir k None None pc)"
    by (rule WaitForSpaceInMemory_space)
  moreover have "StoreInMemory_insert k v (single_key m d p dir k None None pc)
      = Returned None (single_key m d p dir k (Some (v, kNotStarted)) None pc)"
    by (simp add: single_key_def StoreInMemory_insert_def)
  moreover have "\<not> size_of v > max_usage (memory_store (single_key m d p dir k None None pc))"
    using assms by (simp add: single_key_def)
  ultimately show ?thesis
    by (simp add: StoreInMemory_def StoreInMemory_wait_def)
qed

lemma StoreOnDisk_absent:
  assumes "size_of v \<le> d"
  shows "StoreOnDisk k v (single_key m d p dir k im None pc)
     = Returned None (single_key m d p dir k im (Some v) pc)"
proof -
  let ?s1 = "(single_key m d p dir k im None pc)
      \<lparr>disk_store := (disk_store (single_key m d p dir k im None pc))
         \<lparr>index := index (disk_store (single_key m d p dir k im None pc))
            @ [\<lparr>d_key = k, d_state = kStarted\<rparr>]\<rparr>\<rparr>"
  have "HasSpace (disk_store ?s1) (size_of v)"
    by (simp add: single_key_def HasSpace_def)
  then have "WaitForSpaceOnDisk k (size_of v) ?s1 = DiskWaitOver False ?s1"
    by (rule WaitForSpaceOnDisk_space)
  moreover have "StoreOnDisk_write k v False ?s1
      = Returned None (single_key m d p dir k im (Some v) pc)"
    by (simp add: single_key_def StoreOnDisk_write_def WriteFile_def
          FindStartedToStoreOnDisk_def disk_end_def)
  moreover have "\<not> size_of v > max_usage (disk_store (single_key m d p dir k im None pc))"
    using assms by (simp add: single_key_def)
  ultimately show ?thesis
    by (simp add: StoreOnDisk_def StoreOnDisk_wait_def)
qed

lemma Store_single_key:
  assumes "size_of v \<le> d" and "stored_pair v' (im, od)"
  shows "Store k v (single_key m d p dir k im od pc) =
           Returned None
             (if size_of v > m then single_key m d p dir k None (Some v) pc
              else single_key m d p dir k (Some (v, kNotStarted)) None pc)"
proof (cases "size_of v > m")
  case True
  then have "StoreInMemory k v (single_key m d p dir k None None pc)
      = DiskLock (single_key m d p dir k None None pc)"
    by (simp add: StoreInMemory_def single_key_def)
  with True assms show ?thesis
    by (simp add: Store_def Delete_single_key Check_single_key StoreOnDisk_absent)
next
  case False
  with assms show ?thesis
    by (simp add: Store_def Delete_single_key Check_single_key StoreInMemory_vacant)
qed

lemma Get_in_memory:
  "Get k (single_key m d p dir k (Some (v, st)) od pc)
     = Returned (Some v) (single_key m d p dir k (Some (v, st)) od pc)"
  by (simp add: Get_def Check_single_key)
     (simp add: single_key_def FindMemory_def memory_end_def)

lemma Get_on_disk:
  "Get k (single_key m d p dir k None (Some v) pc)
     = Returned (Some v) (single_key m d p dir k None (Some v) pc)"
  by (simp add: Get_def Check_single_key)
     (simp add: single_key_def FindMemory_def memory_end_def Get_disk_def
        FindAndThrowIfCancelled_def FindDisk_def disk_end_def Get_read_def ReadFile_def)

lemma Get_vacant:
  "Get k (single_key m d p dir k None None pc)
     = Threw no_such_element (single_key m d p dir k None None pc)"
  by (simp add: Get_def Check_single_key)
     (simp add: single_key_def FindMemory_def memory_end_def Get_disk_def
        FindAndThrowIfCancelled_def FindDisk_def disk_end_def)

lemma step_spill:
  assumes "size_of v \<le> d"
  shows "CopyQueueToDisk_step (single_key m d p dir k (Some (v, kNotStarted)) None WaitingForWork)
     = Some (single_key m d p dir k (Some (v, kStarted)) (Some v) (AboutToMark k))"
proof -
  let ?s = "single_key m d p dir k (Some (v, kNotStarted)) None WaitingForWork"
  have i: "FindOldestInMemoryOnly ?s = 0" "memory_end ?s = 1" "running ?s"
    "worker_at ?s = WaitingForWork"
    "index (memory_store ?s) ! 0 = \<lparr>m_key = k, m_value = v, also_on_disk = kNotStarted\<rparr>"
    by (simp_all add: single_key_def FindOldestInMemoryOnly_def memory_end_def)
  have marked: "?s\<lparr>memory_store := (memory_store ?s)
                \<lparr>index := (index (memory_store ?s))
                   [0 := (index (memory_store ?s) ! 0)\<lparr>also_on_disk := kStarted\<rparr>]\<rparr>\<rparr>
      = single_key m d p dir k (Some (v, kStarted)) None WaitingForWork"
    by (simp add: single_key_def)
  have "after_StoreOnDisk k
          (StoreOnDisk k v (single_key m d p dir k (Some (v, kStarted)) None WaitingForWork))
      = single_key m d p dir k (Some (v, kStarted)) (Some v) (AboutToMark k)"
    using assms by (simp add: StoreOnDisk_absent after_StoreOnDisk_def) (simp add: single_key_def)
  with i marked show ?thesis
    by (simp add: CopyQueueToDisk_step_def)
qed

lemma step_mark:
  "CopyQueueToDisk_step (single_key m d p dir k (Some (v, st)) od (AboutToMark k))
     = Some (single_key m d p dir k (Some (v, kCompleted)) od WaitingForWork)"
  by (simp add: CopyQueueToDisk_step_def single_key_def FindMemory_def memory_end_def)

lemma step_mark_nothing:
  "CopyQueueToDisk_step (single_key m d p dir k None od (AboutToMark k))
     = Some (single_key m d p dir k None od WaitingForWork)"
  by (simp add: CopyQueueToDisk_step_def single_key_def FindMemory_def memory_end_def)

lemma step_idle:
  assumes "im = None \<or> im = Some (v, kCompleted)"
  shows "CopyQueueToDisk_step (single_key m d p dir k im od WaitingForWork) = None"
  using assms
  by (auto simp: CopyQueueToDisk_step_def single_key_def FindOldestInMemoryOnly_def
        memory_end_def)

lemma spilling_holding: "spilling m d p dir k v s \<Longrightarrow> holding m d p dir k v s"
  unfolding spilling_def holding_def by blast

lemma step_holding:
  assumes "size_of v \<le> d" and "holding m d p dir k v s" and "CopyQueueToDisk_step s = Some s'"
  shows "holding m d p dir k v s'"
  using assms unfolding holding_def
  by (auto simp: step_spill step_mark step_mark_nothing step_idle)

lemma step_spilling:
  assumes "size_of v \<le> d" and "spilling m d p dir k v s" and "CopyQueueToDisk_step s = Some s'"
  shows "spilling m d p dir k v s'"
  using assms unfolding spilling_def
  by (auto simp: step_spill step_mark step_idle)

lemma step_vacant:
  assumes "vacant m d p dir k s" and "CopyQueueToDisk_step s = Some s'"
  shows "vacant m d p dir k s'"
  using assms unfolding vacant_def
  by (auto simp: step_mark_nothing step_idle)

lemma runs_holding:
  assumes "size_of v \<le> d"
  shows "worker_runs s s' \<Longrightarrow> holding m d p dir k v s \<Longrightarrow> holding m d p dir k v s'"
  unfolding worker_runs_def
  by (induction rule: rtranclp_induct) (auto intro: step_holding [OF assms])

lemma runs_spilling:
  assumes "size_of v \<le> d"
  shows "worker_runs s s' \<Longrightarrow> spilling m d p dir k v s \<Longrightarrow> spilling m d p dir k v s'"
  unfolding worker_runs_def
  by (induction rule: rtranclp_induct) (auto intro: step_spilling [OF assms])

lemma runs_vacant:
  "worker_runs s s' \<Longrightarrow> vacant m d p dir k s \<Longrightarrow> vacant m d p dir k s'"
  unfolding worker_runs_def
  by (induction rule: rtranclp_induct) (auto intro: step_vacant)

lemma Store_holding:
  assumes "size_of v \<le> d" and "holding m d p dir k v' s"
  shows "\<exists>s'. Store k v s = Returned None s' \<and> holding m d p dir k v s'"
proof -
  from assms(2) obtain im od pc where s: "s = single_key m d p dir k im od pc"
    and pr: "stored_pair v' (im, od)" and pc: "pc \<in> {WaitingForWork, AboutToMark k}"
    unfolding holding_def stored_pair_def by auto
  from pc have "holding m d p dir k v (single_key m d p dir k None (Some v) pc)"
    and "holding m d p dir k v (single_key m d p dir k (Some (v, kNotStarted)) None pc)"
    unfolding holding_def by auto
  with Store_single_key [OF assms(1) pr] s show ?thesis
    by auto
qed

lemma Get_holding:
  assumes "holding m d p dir k v s"
  shows "Get k s = Returned (Some v) s"
  using assms unfolding holding_def
  by (auto simp: Get_in_memory Get_on_disk)

lemma fresh_single_key: "fresh m d p dir = single_key m d p dir k None None WaitingForWork"
  by (simp add: fresh_def single_key_def)

lemma Store_fresh:
  assumes "size_of v \<le> d"
  shows "\<exists>s'. Store k v (fresh m d p dir) = Returned None s' \<and> spilling m d p dir k v s'"
proof -
  have pr: "stored_pair v (None, None)" by (simp add: stored_pair_def)
  have "spilling m d p dir k v (single_key m d p dir k None (Some v) WaitingForWork)"
    and "spilling m d p dir k v (single_key m d p dir k (Some (v, kNotStarted)) None WaitingForWork)"
    unfolding spilling_def by auto
  with Store_single_key [OF assms pr] show ?thesis
    by (auto simp: fresh_single_key [of m d p dir k])
qed

lemma Delete_spilling:
  assumes "spilling m d p dir k v s"
  shows "\<exists>s'. Delete k s = (Inr (), s') \<and> vacant m d p dir k s'"
  using assms unfolding spilling_def vacant_def
  by (auto simp: Delete_single_key_ok)

lemma Get_vacant_buffer:
  assumes "vacant m d p dir k s"
  shows "Get k s = Threw no_such_element s"
  using assms unfolding vacant_def by (auto simp: Get_vacant)

lemma fresh_buffer_laws:
  assumes v1: "size_of v1 \<le> d" and v2: "size_of v2 \<le> d"
  shows "\<exists>s1. Store k v1 (fresh m d p dir) = Returned None s1
     \<and> (\<forall>s1'. worker_runs s1 s1' \<longrightarrow>
           (\<exists>s2. Store k v2 s1' = Returned None s2
                 \<and> (\<forall>s2'. worker_runs s2 s2' \<longrightarrow> Get k s2' = Returned (Some v2) s2'))
           \<and> (\<exists>s3. Delete k s1' = (Inr (), s3)
                 \<and> (\<forall>s3'. worker_runs s3 s3' \<longrightarrow> Get k s3' = Threw no_such_element s3')))"
proof -
  from Store_fresh [OF v1] obtain s1 where
    s1: "Store k v1 (fresh m d p dir) = Returned None s1" and sp: "spilling m d p dir k v1 s1"
    by blast
  have "(\<exists>s2. Store k v2 s1' = Returned None s2
                 \<and> (\<forall>s2'. worker_runs s2 s2' \<longrightarrow> Get k s2' = Returned (Some v2) s2'))
           \<and> (\<exists>s3. Delete k s1' = (Inr (), s3)
                 \<and> (\<forall>s3'. worker_runs s3 s3' \<longrightarrow> Get k s3' = Threw no_such_element s3'))"
    if run1: "worker_runs s1 s1'" for s1'
  proof
    from runs_spilling [OF v1 run1 sp] have sp': "spilling m d p dir k v1 s1'" .
    then have "holding m d p dir k v1 s1'" by (rule spilling_holding)
    from Store_holding [OF v2 this] obtain s2 where
      s2: "Store k v2 s1' = Returned None s2" and h2: "holding m d p dir k v2 s2"
      by blast
    have "Get k s2' = Returned (Some v2) s2'" if "worker_runs s2 s2'" for s2'
      using runs_holding [OF v2 that h2] by (rule Get_holding)
    with s2 show "\<exists>s2. Store k v2 s1' = Returned None s2
                 \<and> (\<forall>s2'. worker_runs s2 s2' \<longrightarrow> Get k s2' = Returned (Some v2) s2')"
      by blast
    from Delete_spilling [OF sp'] obtain s3 where
      s3: "Delete k s1' = (Inr (), s3)" and vac: "vacant m d p dir k s3"
      by blast
    have "Get k s3' = Threw no_such_element s3'" if "worker_runs s3 s3'" for s3'
      using runs_vacant [OF that vac] by (rule Get_vacant_buffer)
    with s3 show "\<exists>s3. Delete k s1' = (Inr (), s3)
                 \<and> (\<forall>s3'. worker_runs s3 s3' \<longrightarrow> Get k s3' = Threw no_such_element s3')"
      by blast
  qed
  with s1 show ?thesis by blast
qed

subsection \<open>Three steps that go wrong\<close>

text \<open>The steps behind the schedules of the next subsection, for any buffer.
  \<^item> A \<^verbatim>\<open>Store\<close> that wakes up in its wait for memory on a stopped buffer whose worker has
    returned without an exception returns normally and stores nothing.
  \<^item> After \<^verbatim>\<open>StoreOnDisk\<close> the worker marks the element it finds under the key
    \<^verbatim>\<open>kCompleted\<close>, whatever the state of that element is.
  \<^item> A thread that wakes up in \<^verbatim>\<open>WaitForSpaceOnDisk\<close> when there is room writes the spill
    file and adds its size to the disk usage even if the key has no \<^verbatim>\<open>kStarted\<close> record
    any more.\<close>

lemma stopped_wait_returns:
  assumes "\<not> running s" and "worker s = ReadyOk \<or> worker s = Invalid"
  shows "resume (InWaitForSpaceInMemory key v) s = Returned None (s\<lparr>worker := Invalid\<rparr>)"
proof -
  from assms(1) have "WaitForSpaceInMemory True (size_of v) s = SpaceWaitOver s"
    by (subst WaitForSpaceInMemory.simps) simp
  moreover from assms have "s\<lparr>worker := Invalid\<rparr> = s" if "worker s = Invalid"
    using that by simp
  ultimately show ?thesis
    using assms by (auto simp: resume_def StoreInMemory_wait_def StoreInMemory_insert_def)
qed

lemma mark_whatever_is_found:
  assumes "worker_at s = AboutToMark key" and "FindMemory s key \<noteq> memory_end s"
  shows "\<exists>s'. CopyQueueToDisk_step s = Some s'
     \<and> also_on_disk (index (memory_store s') ! FindMemory s key) = kCompleted
     \<and> disk_store s' = disk_store s \<and> fs s' = fs s"
proof -
  from assms(2) have "FindMemory s key < length (index (memory_store s))"
    by (rule FindMemory_less)
  with assms show ?thesis
    by (simp add: CopyQueueToDisk_step_def)
qed

lemma write_after_cancel:
  assumes "running s" and "HasSpace (disk_store s) (size_of v)"
    and "FindStartedToStoreOnDisk s key = disk_end s"
    and "root_exists (fs s)" and "root_writable (fs s)"
  shows "\<exists>s'. StoreOnDisk_wait key v s = Returned None s'
     \<and> index (disk_store s') = index (disk_store s)
     \<and> current (disk_store s') = current (disk_store s) + size_of v
     \<and> files (fs s') (GetFilename (kDiskBuffer s) key) = Some v"
proof -
  from assms(2) have "WaitForSpaceOnDisk key (size_of v) s = DiskWaitOver False s"
    by (rule WaitForSpaceOnDisk_space)
  with assms show ?thesis
    by (simp add: StoreOnDisk_wait_def StoreOnDisk_write_def WriteFile_def)
qed

subsection \<open>Schedules on which the buffer goes wrong\<close>

text \<open>Claim C1 does not hold of the code.  Its memory half does
  (\<open>reachable_memory_accounted\<close> above); its disk half does not.  On \<^const>\<open>cancelled_spill_schedule\<close> the worker
  leaves \<^verbatim>\<open>WaitForSpaceOnDisk\<close> through the loop guard (there is room now) with
  \<^verbatim>\<open>cancelled\<close> still false, writes the file, finds no \<^verbatim>\<open>kStarted\<close> record of the key to
  mark, and adds the size to \<^verbatim>\<open>disk_store_.current\<close> all the same: the reached buffer has
  no completed disk record, a spill file for the cancelled record, and a disk usage of 1.\<close>

theorem disk_accounting_violated:
  "reachable (after cancelled_spill_schedule (fresh 1 1 False ''d''))
   \<and> index (disk_store (after cancelled_spill_schedule (fresh 1 1 False ''d'')))
       = [\<lparr>d_key = ''2'', d_state = kCancelled\<rparr>]
   \<and> current (disk_store (after cancelled_spill_schedule (fresh 1 1 False ''d''))) = 1
   \<and> files (fs (after cancelled_spill_schedule (fresh 1 1 False ''d''))) (GetFilename ''d'' ''2'')
       = Some ''b''
   \<and> \<not> disk_accounted (after cancelled_spill_schedule (fresh 1 1 False ''d''))"
proof -
  obtain sys where r: "run cancelled_spill_schedule (start (fresh 1 1 False ''d'')) = Some sys"
    by (simp add: cancelled_spill_schedule_def buffer_defs)
  then have "reachable (buffer sys)"
    by (intro reachable_after [of 1 1]) simp_all
  with r have "reachable (after cancelled_spill_schedule (fresh 1 1 False ''d''))"
    by (simp add: after_def)
  then show ?thesis
    by (simp add: disk_accounted_def) (simp add: cancelled_spill_schedule_def buffer_defs)
qed

text \<open>Claim C2 does not hold of the code.  After \<^const>\<open>restore_during_spill_schedule\<close> the
  memory tier holds the new element of key \<open>1\<close>, \<^verbatim>\<open>kNotStarted\<close>, and the worker is about to
  mark what it finds under the key it has spilled.  Its next step moves that element from
  \<^verbatim>\<open>kNotStarted\<close> to \<^verbatim>\<open>kCompleted\<close>, although its value was never written: the disk index is
  empty and the key has no spill file.\<close>

theorem worker_marks_element_it_did_not_write:
  "reachable (after (restore_during_spill_schedule @ [Worker]) (fresh 1 1 False ''d''))
   \<and> index (memory_store (after restore_during_spill_schedule (fresh 1 1 False ''d'')))
       = [\<lparr>m_key = ''1'', m_value = ''c'', also_on_disk = kNotStarted\<rparr>]
   \<and> worker_at (after restore_during_spill_schedule (fresh 1 1 False ''d'')) = AboutToMark ''1''
   \<and> index (memory_store (after (restore_during_spill_schedule @ [Worker]) (fresh 1 1 False ''d'')))
       = [\<lparr>m_key = ''1'', m_value = ''c'', also_on_disk = kCompleted\<rparr>]
   \<and> index (disk_store (after (restore_during_spill_schedule @ [Worker]) (fresh 1 1 False ''d'')))
       = []
   \<and> files (fs (after (restore_during_spill_schedule @ [Worker]) (fresh 1 1 False ''d'')))
         (GetFilename ''d'' ''1'') = None"
proof -
  obtain sys where
    r: "run (restore_during_spill_schedule @ [Worker]) (start (fresh 1 1 False ''d'')) = Some sys"
    by (simp add: restore_during_spill_schedule_def buffer_defs)
  then have "reachable (buffer sys)"
    by (intro reachable_after [of 1 1]) simp_all
  with r have "reachable (after (restore_during_spill_schedule @ [Worker]) (fresh 1 1 False ''d''))"
    by (simp add: after_def)
  then show ?thesis
    by (simp add: restore_during_spill_schedule_def buffer_defs)
qed

text \<open>Claim C4 does not hold of the code.  On \<^const>\<open>stopped_while_waiting_schedule\<close> the
  \<^verbatim>\<open>Store\<close> of thread 1 is suspended in the wait for room in memory, \<^verbatim>\<open>running_\<close> is
  cleared by the failing \<^verbatim>\<open>Store\<close> of thread 2, and the worker returns without an
  exception.  Thread 1 then returns from \<^verbatim>\<open>Store\<close> normally, and its key is in neither
  tier.\<close>

theorem Store_returns_without_storing:
  "suspended (system_after (take 2 stopped_while_waiting_schedule) (fresh 1 1 False ''d'')) 1
     = Some (InWaitForSpaceInMemory ''2'' ''b'')
   \<and> returns (system_after stopped_while_waiting_schedule (fresh 1 1 False ''d''))
       = [(0, Inr None), (2, Inl cannot_exceed_limit), (1, Inr None)]
   \<and> suspended (system_after stopped_while_waiting_schedule (fresh 1 1 False ''d'')) 1 = None
   \<and> \<not> running (after stopped_while_waiting_schedule (fresh 1 1 False ''d''))
   \<and> index (memory_store (after stopped_while_waiting_schedule (fresh 1 1 False ''d'')))
       = [\<lparr>m_key = ''1'', m_value = ''a'', also_on_disk = kNotStarted\<rparr>]
   \<and> index (disk_store (after stopped_while_waiting_schedule (fresh 1 1 False ''d''))) = []"
  by (simp add: stopped_while_waiting_schedule_def buffer_defs)

text \<open>Claim C8 holds on a new buffer (\<open>fresh_buffer_laws\<close> above) but not in every reachable
  buffer.  On
  \<^const>\<open>restore_schedule\<close> the two \<^verbatim>\<open>Store\<close> calls of key \<open>2\<close> and the \<^verbatim>\<open>Get\<close> are made
  one after the other by one thread; both \<^verbatim>\<open>Store\<close> calls return normally and the spill
  file holds the second value, but the cancelled record of the interrupted spill is still
  the first record of the key, so \<^verbatim>\<open>Get\<close> throws \<open>no_such_element\<close>.\<close>

theorem restored_value_not_returned:
  "reachable (after restore_schedule (fresh 1 4 False ''d''))
   \<and> drop 3 (returns (system_after restore_schedule (fresh 1 4 False ''d'')))
       = [(0, Inr None), (0, Inr None), (0, Inl no_such_element)]
   \<and> index (disk_store (after restore_schedule (fresh 1 4 False ''d'')))
       = [\<lparr>d_key = ''2'', d_state = kCancelled\<rparr>, \<lparr>d_key = ''2'', d_state = kCompleted\<rparr>,
          \<lparr>d_key = ''2'', d_state = kCompleted\<rparr>]
   \<and> files (fs (after restore_schedule (fresh 1 4 False ''d''))) (GetFilename ''d'' ''2'')
       = Some ''yy''"
proof -
  obtain sys where r: "run restore_schedule (start (fresh 1 4 False ''d'')) = Some sys"
    by (simp add: restore_schedule_def buffer_defs)
  then have "reachable (buffer sys)"
    by (intro reachable_after [of 1 4]) simp_all
  with r have "reachable (after restore_schedule (fresh 1 4 False ''d''))"
    by (simp add: after_def)
  then show ?thesis
    by (simp add: restore_schedule_def buffer_defs)
qed

end
